theory Spec2Isabelle
  imports Complex_Main
begin

section \<open>Matrix initialisers of \<^verbatim>\<open>rnn_scripts/initializers.py\<close>\<close>

text \<open>
  The three routines of \<^verbatim>\<open>initializers.py\<close> are embedded as HOL functions.
  Conventions of the embedding:
  \<^item> a numpy 2-D array is a list of rows (\<open>real list list\<close>); a float is a real number, and
    the arithmetic on the entries of the arrays is exact: no rounding, no overflow, and the
    casts to \<^verbatim>\<open>float32\<close> are the identity. The one product whose value is truncated
    to an integer, \<^verbatim>\<open>n_rec * p_inh\<close> at line 54, is rounded to a double as the machine
    rounds it (\<open>py_float_mul\<close> below), because the truncation does not commute with the
    rounding. The special values of floating point are followed by case analysis
    (\<open>npfloat\<close> below); a weight matrix that holds an infinity or a NaN is \<open>None\<close>;
  \<^item> the configuration dictionary is a record; its values are Python numbers, booleans
    and strings. \<open>w_dist\<close> is the one key the routines read that a configuration may lack
    (\<open>None\<close> is the absent key), and \<open>cov\<close> may hold Python's \<^verbatim>\<open>None\<close>;
  \<^item> the random draws are arguments: \<open>u i j\<close> is entry \<open>(i, j)\<close> of
    \<^verbatim>\<open>np.random.rand(r, c)\<close>, \<open>normal t\<close> is entry \<open>t\<close> of
    \<^verbatim>\<open>np.random.normal(0, 1, k)\<close> (or of \<^verbatim>\<open>randn(k)\<close>), \<open>gam t\<close> is entry \<open>t\<close>
    of \<^verbatim>\<open>np.random.gamma(2, 0.5, k)\<close>;
  \<^item> the two routines of numpy's linear algebra, \<^verbatim>\<open>np.linalg.eigvals\<close> and
    \<^verbatim>\<open>np.linalg.cholesky\<close>, are arguments too;
  \<^item> a raised exception is \<open>Inl\<close> of the result; the configuration, which Python mutates
    in place, and the printed lines are returned beside the result, also when the routine
    raises.
\<close>

subsection \<open>Data\<close>

type_synonym matrix = "real list list"

datatype error = KeyError | ZeroDivisionError | LinAlgError | ValueError

datatype msg =
    WarnGammaNorm
  | WarnGammaDale
  | WarnNotImplemented
  | ContinuingGauss
  | SpectralRad real

record params =
  n_rec :: nat
  n_inp :: nat
  n_out :: nat
  rank :: nat
  p_rec :: real
  p_inp :: real
  p_inh :: real
  w_rec_dist :: string
  w_dist :: "string option"
  spectr_rad :: real
  spectr_norm :: bool
  apply_dale :: bool
  balance_dale :: bool
  row_balance_dale :: bool
  cov :: "matrix option"

text \<open>A draw of \<^verbatim>\<open>np.random.rand\<close>: a float of the half-open interval from 0 to 1.\<close>

typedef uniform01 = "{x :: real. 0 \<le> x \<and> x < 1}"
  by (rule exI [of _ 0]) simp

text \<open>
  The result of a numpy division of two finite floats: numpy does not raise on a zero
  divisor, it gives an infinity (whose sign is not kept here) or NaN.
\<close>

datatype npfloat = Finite real | Inf | NaN

subsection \<open>numpy and Python primitives\<close>

definition zeros :: "nat \<Rightarrow> nat \<Rightarrow> matrix" where
  "zeros r c = replicate r (replicate c 0)"

definition eye :: "nat \<Rightarrow> matrix" where
  "eye n = map (\<lambda>i. map (\<lambda>j. if i = j then 1 else 0) [0..<n]) [0..<n]"

text \<open>
  \<^verbatim>\<open>np.where(np.random.rand(r, c) < p)\<close>: the positions that pass the test, in
  row-major order.
\<close>

definition np_where_lt :: "nat \<Rightarrow> nat \<Rightarrow> (nat \<Rightarrow> nat \<Rightarrow> uniform01) \<Rightarrow> real \<Rightarrow> (nat \<times> nat) list" where
  "np_where_lt r c u p =
     filter (\<lambda>(i, j). Rep_uniform01 (u i j) < p) (List.product [0..<r] [0..<c])"

text \<open>\<^verbatim>\<open>w[i, j] = v\<close>, for a position inside the array.\<close>

definition put :: "matrix \<Rightarrow> nat \<Rightarrow> nat \<Rightarrow> real \<Rightarrow> matrix" where
  "put w i j v = w[i := (w ! i)[j := v]]"

text \<open>\<^verbatim>\<open>w[idx[0], idx[1]] = vals\<close>: the \<open>t\<close>-th value goes to the \<open>t\<close>-th position.\<close>

fun assign :: "matrix \<Rightarrow> (nat \<times> nat) list \<Rightarrow> real list \<Rightarrow> matrix" where
  "assign w ((i, j) # ps) (v # vs) = assign (put w i j v) ps vs"
| "assign w _ _ = w"

text \<open>\<^verbatim>\<open>int(x)\<close> on a float truncates towards zero.\<close>

definition py_int :: "real \<Rightarrow> int" where
  "py_int x = (if 0 \<le> x then \<lfloor>x\<rfloor> else \<lceil>x\<rceil>)"

text \<open>
  The product of two Python floats is the double nearest to the exact product, a tie going
  to the even significand (IEEE 754 binary64, round to nearest even, 53 bits of significand;
  the range of the exponent is not bounded here). \<open>round_even\<close> is the nearest integer
  with that rule for the ties; on a number in the binade \<open>2 ^ e \<le> \<bar>x\<bar> < 2 ^ (e + 1)\<close> the
  doubles are the multiples of \<open>2 ^ (e - 52)\<close>.
\<close>

definition round_even :: "real \<Rightarrow> int" where
  "round_even y =
     (let f = \<lfloor>y\<rfloor>; d = y - of_int f
      in if d < 1 / 2 then f else if 1 / 2 < d then f + 1 else if even f then f else f + 1)"

definition round_double :: "real \<Rightarrow> real" where
  "round_double x =
     (if x = 0 then 0
      else let e = \<lfloor>log 2 \<bar>x\<bar>\<rfloor>
           in of_int (round_even (x * 2 powr (52 - of_int e))) * 2 powr (of_int e - 52))"

definition py_float_mul :: "real \<Rightarrow> real \<Rightarrow> real" where
  "py_float_mul x y = round_double (x * y)"

text \<open>
  The cut of a Python slice: \<^verbatim>\<open>xs[a:]\<close> is \<open>drop (py_cut a (length xs)) xs\<close> and
  \<^verbatim>\<open>xs[:a]\<close> is \<open>take (py_cut a (length xs)) xs\<close>. A negative \<open>a\<close> counts from the end,
  and \<open>-0\<close> is \<open>0\<close>.
\<close>

definition py_cut :: "int \<Rightarrow> nat \<Rightarrow> nat" where
  "py_cut a n = (if a < 0 then nat (max 0 (int n + a)) else min (nat a) n)"

definition np_div :: "real \<Rightarrow> real \<Rightarrow> npfloat" where
  "np_div x y = (if y \<noteq> 0 then Finite (x / y) else if x \<noteq> 0 then Inf else NaN)"

text \<open>A finite float divided by the result of an earlier division.\<close>

fun div_by :: "real \<Rightarrow> npfloat \<Rightarrow> npfloat" where
  "div_by x (Finite r) = np_div x r"
| "div_by x Inf = Finite 0"
| "div_by x NaN = NaN"

fun to_real :: "npfloat \<Rightarrow> real option" where
  "to_real (Finite r) = Some r"
| "to_real Inf = None"
| "to_real NaN = None"

text \<open>\<^verbatim>\<open>np.sqrt\<close> of a finite float: NaN below zero.\<close>

definition np_sqrt :: "real \<Rightarrow> npfloat" where
  "np_sqrt x = (if 0 \<le> x then Finite (sqrt x) else NaN)"

definition scale :: "real \<Rightarrow> matrix \<Rightarrow> matrix" where
  "scale c w = map (map (\<lambda>x. x * c)) w"

text \<open>
  \<^verbatim>\<open>w *= b\<close> for a finite matrix and the result of \<^verbatim>\<open>np.sqrt\<close>: NaN makes every
  entry NaN, so the matrix stays finite only when it has no entry.
\<close>

fun scale_np :: "npfloat \<Rightarrow> matrix \<Rightarrow> matrix option" where
  "scale_np (Finite b) w = Some (scale b w)"
| "scale_np _ w = (if concat w = [] then Some w else None)"

text \<open>
  \<^verbatim>\<open>w / m\<close> for a finite matrix and a finite float: with \<open>m = 0\<close> every entry is an
  infinity or NaN.
\<close>

definition div_mat :: "matrix \<Rightarrow> real \<Rightarrow> matrix option" where
  "div_mat w m = (if m \<noteq> 0 then Some (map (map (\<lambda>x. x / m)) w)
                  else if concat w = [] then Some w else None)"

definition ncols :: "matrix \<Rightarrow> nat" where
  "ncols b = (case b of [] \<Rightarrow> 0 | r # _ \<Rightarrow> length r)"

text \<open>\<^verbatim>\<open>a.dot(b)\<close>, \<^verbatim>\<open>a @ b\<close>: the matrix product, for shapes that agree.\<close>

definition dot :: "matrix \<Rightarrow> matrix \<Rightarrow> matrix" where
  "dot a b = map (\<lambda>row. map (\<lambda>j. sum_list (map (\<lambda>k. row ! k * b ! k ! j) [0..<length b]))
                            [0..<ncols b]) a"

subsection \<open>\<^verbatim>\<open>initialize_w_rec\<close>\<close>

text \<open>Lines 24 to 28 and 45 to 49: the values of the Gaussian formula.\<close>

definition gauss_vals :: "(nat \<Rightarrow> real) \<Rightarrow> params \<Rightarrow> nat \<Rightarrow> real list" where
  "gauss_vals normal p k =
     map (\<lambda>t. normal t * spectr_rad p / sqrt (p_rec p * real (n_rec p))) [0..<k]"

text \<open>
  Lines 16 to 49. The scalar \<^verbatim>\<open>np.sqrt(p_rec * n_rec)\<close> is zero or NaN only when no
  position was sampled (a draw of \<^verbatim>\<open>rand\<close> is not negative), and then it meets an
  empty array. The statement of line 40 is a comparison, it changes nothing.
\<close>

definition fill_w_rec ::
  "(nat \<Rightarrow> nat \<Rightarrow> uniform01) \<Rightarrow> (nat \<Rightarrow> real) \<Rightarrow> (nat \<Rightarrow> real) \<Rightarrow> params
     \<Rightarrow> params \<times> msg list \<times> (error + matrix)" where
  "fill_w_rec u normal gam p =
     (let n = n_rec p;
          w_rec = zeros n n;
          rec_idx = np_where_lt n n u (p_rec p)
      in if w_rec_dist p = ''gauss''
         then (p, [], Inr (assign w_rec rec_idx (gauss_vals normal p (length rec_idx))))
         else (case w_dist p of
                 None \<Rightarrow> (p, [], Inl KeyError)
               | Some d \<Rightarrow>
                   if d = ''gamma''
                   then ((if spectr_norm p = False then p\<lparr>spectr_norm := True\<rparr> else p),
                         (if spectr_norm p = False then [WarnGammaNorm] else []) @
                         (if apply_dale p = False then [WarnGammaDale] else []),
                         Inr (assign w_rec rec_idx (map gam [0..<length rec_idx])))
                   else (p, [WarnNotImplemented, ContinuingGauss],
                         Inr (assign w_rec rec_idx (gauss_vals normal p (length rec_idx))))))"

text \<open>Line 56, \<^verbatim>\<open>dale_mask[-n_inh:] *= -1\<close>.\<close>

definition negate_rows :: "nat \<Rightarrow> matrix \<Rightarrow> matrix" where
  "negate_rows s m = take s m @ map (map (\<lambda>x. x * (- 1))) (drop s m)"

text \<open>Line 62, \<^verbatim>\<open>w_rec[:, -n_inh:] *= EIratio\<close>.\<close>

definition scale_cols :: "nat \<Rightarrow> real \<Rightarrow> matrix \<Rightarrow> matrix" where
  "scale_cols s e w = map (\<lambda>row. take s row @ map (\<lambda>x. x * e) (drop s row)) w"

text \<open>Lines 66 to 69, for one row; \<open>s\<close> is the cut of the two slices.\<close>

definition ex_u :: "nat \<Rightarrow> real list \<Rightarrow> real" where
  "ex_u s row = sum_list (take s row)"

definition in_u :: "nat \<Rightarrow> real list \<Rightarrow> real" where
  "in_u s row = sum_list (drop s row)"

definition balance_row :: "nat \<Rightarrow> real list \<Rightarrow> real list option" where
  "balance_row s row =
     (let ratio = np_div (ex_u s row) (in_u s row)
      in map_option (\<lambda>xs. xs @ drop s row)
           (those (map (\<lambda>x. to_real (div_by x ratio)) (take s row))))"

definition row_balance :: "nat \<Rightarrow> matrix \<Rightarrow> matrix option" where
  "row_balance s w = those (map (balance_row s) w)"

text \<open>
  Line 54, \<^verbatim>\<open>n_inh = int(params["n_rec"] * params["p_inh"])\<close>: the float product,
  truncated.
\<close>

definition inh_count :: "params \<Rightarrow> int" where
  "inh_count p = py_int (py_float_mul (real (n_rec p)) (p_inh p))"

text \<open>
  Lines 54 to 71. \<open>EIratio\<close> and the argument of the square root are Python floats, so
  their divisions raise on a zero divisor.
\<close>

definition dale :: "params \<Rightarrow> matrix \<Rightarrow> matrix \<Rightarrow> error + (matrix option \<times> matrix)" where
  "dale p w_rec dale_mask =
     (let n_inh = inh_count p;
          s = py_cut (- n_inh) (n_rec p);
          dmask = negate_rows s dale_mask;
          w1 = map (map abs) w_rec
      in if balance_dale p
         then (if p_inh p = 0 then Inl ZeroDivisionError
               else let EIratio = (1 - p_inh p) / p_inh p;
                        w2 = scale_cols s EIratio w1;
                        w3 = (if row_balance_dale p then row_balance s w2 else Some w2)
                    in if 1 - (2 * p_rec p) / pi = 0 then Inl ZeroDivisionError
                       else if EIratio = 0 then Inl ZeroDivisionError
                       else Inr (Option.bind w3
                                   (scale_np (np_sqrt ((1 / (1 - (2 * p_rec p) / pi)) / EIratio))),
                                 dmask))
         else Inr (Some w1, dmask))"

text \<open>
  \<^verbatim>\<open>np.max(np.abs(np.linalg.eigvals(dale_mask.dot(w_rec))))\<close>: \<^verbatim>\<open>eigvals\<close> raises
  on a matrix with an infinity or a NaN, \<^verbatim>\<open>np.max\<close> raises on an empty array.
\<close>

definition max_abs_eig :: "(matrix \<Rightarrow> complex list) \<Rightarrow> matrix \<Rightarrow> matrix option \<Rightarrow> error + real" where
  "max_abs_eig eigvals dmask w =
     (case w of
        None \<Rightarrow> Inl LinAlgError
      | Some a \<Rightarrow>
          (case map cmod (eigvals (dot dmask a)) of
             [] \<Rightarrow> Inl ValueError
           | x # xs \<Rightarrow> Inr (fold max xs x)))"

text \<open>Lines 74 to 79.\<close>

definition spectral_normalise ::
  "(matrix \<Rightarrow> complex list) \<Rightarrow> real \<Rightarrow> matrix \<Rightarrow> matrix option \<Rightarrow> error + matrix option" where
  "spectral_normalise eigvals rad dmask w =
     (case max_abs_eig eigvals dmask w of
        Inl e \<Rightarrow> Inl e
      | Inr m \<Rightarrow> Inr (Option.bind w (\<lambda>a. div_mat (map (map (\<lambda>x. rad * x)) a) m)))"

text \<open>Lines 80 and 81: the print needs the eigenvalues once more.\<close>

definition report ::
  "(matrix \<Rightarrow> complex list) \<Rightarrow> matrix \<Rightarrow> matrix option \<Rightarrow> error + (msg \<times> matrix \<times> matrix)" where
  "report eigvals dmask w =
     (case w of
        None \<Rightarrow> Inl LinAlgError
      | Some a \<Rightarrow>
          (case max_abs_eig eigvals dmask (Some a) of
             Inl e \<Rightarrow> Inl e
           | Inr m \<Rightarrow> Inr (SpectralRad m, a, dmask)))"

definition initialize_w_rec ::
  "(matrix \<Rightarrow> complex list) \<Rightarrow> (nat \<Rightarrow> nat \<Rightarrow> uniform01) \<Rightarrow> (nat \<Rightarrow> real) \<Rightarrow> (nat \<Rightarrow> real) \<Rightarrow> params
     \<Rightarrow> params \<times> msg list \<times> (error + matrix \<times> matrix)" where
  "initialize_w_rec eigvals u normal gam p =
     (case fill_w_rec u normal gam p of
        (p1, out, Inl e) \<Rightarrow> (p1, out, Inl e)
      | (p1, out, Inr w0) \<Rightarrow>
          (case (if apply_dale p1 then dale p1 w0 (eye (n_rec p1))
                 else Inr (Some w0, eye (n_rec p1))) of
             Inl e \<Rightarrow> (p1, out, Inl e)
           | Inr (w1, dmask) \<Rightarrow>
               (case (if spectr_norm p1 then spectral_normalise eigvals (spectr_rad p1) dmask w1
                      else Inr w1) of
                  Inl e \<Rightarrow> (p1, out, Inl e)
                | Inr w2 \<Rightarrow>
                    (case report eigvals dmask w2 of
                       Inl e \<Rightarrow> (p1, out, Inl e)
                     | Inr (line, w, m) \<Rightarrow> (p1, out @ [line], Inr (w, m))))))"

subsection \<open>\<^verbatim>\<open>initialize_w_inp\<close>\<close>

text \<open>\<^verbatim>\<open>w.T\<close> for an array of shape \<open>(r, c)\<close>.\<close>

definition transpose_np :: "nat \<Rightarrow> nat \<Rightarrow> matrix \<Rightarrow> matrix" where
  "transpose_np r c w = map (\<lambda>j. map (\<lambda>i. w ! i ! j) [0..<r]) [0..<c]"

text \<open>
  Lines 95 to 101. \<^verbatim>\<open>1 / params["p_inp"]\<close> divides Python numbers and raises on
  zero, whatever was sampled. Below zero \<^verbatim>\<open>np.sqrt\<close> gives NaN, and then no position
  was sampled (a draw of \<^verbatim>\<open>rand\<close> is not negative): NaN meets an empty array.
\<close>

definition initialize_w_inp ::
  "(nat \<Rightarrow> nat \<Rightarrow> uniform01) \<Rightarrow> (nat \<Rightarrow> real) \<Rightarrow> params \<Rightarrow> error + matrix" where
  "initialize_w_inp u randn p =
     (let w_task = zeros (n_rec p) (n_inp p);
          idx = np_where_lt (n_rec p) (n_inp p) u (p_inp p)
      in if p_inp p = 0 then Inl ZeroDivisionError
         else Inr (transpose_np (n_rec p) (n_inp p)
                     (assign w_task idx
                        (map (\<lambda>t. randn t * sqrt (1 / p_inp p)) [0..<length idx]))))"

subsection \<open>\<^verbatim>\<open>initialize_loadings\<close>\<close>

text \<open>Lines 121 to 124: the loop over \<^verbatim>\<open>range(rank)\<close>, on the identity.\<close>

definition cov_step :: "params \<Rightarrow> nat \<Rightarrow> matrix \<Rightarrow> matrix" where
  "cov_step p i c =
     put (put c (n_inp p + i) (n_inp p + rank p + i) (6 / 10))
         (n_inp p + rank p + i) (n_inp p + i) (6 / 10)"

definition build_cov :: "params \<Rightarrow> nat \<Rightarrow> matrix" where
  "build_cov p n_loading = fold (cov_step p) [0..<rank p] (eye n_loading)"

text \<open>\<^verbatim>\<open>np.random.randn(r, c)\<close>.\<close>

definition randn_matrix :: "nat \<Rightarrow> nat \<Rightarrow> (nat \<Rightarrow> nat \<Rightarrow> real) \<Rightarrow> matrix" where
  "randn_matrix r c randn = map (\<lambda>k. map (\<lambda>j. randn k j) [0..<c]) [0..<r]"

text \<open>
  \<^verbatim>\<open>chol_cov @ np.random.randn(n_loading, n_rec)\<close>: the factor is square, and
  the product raises when its size is not \<open>n_loading\<close>.
\<close>

definition matmul_randn :: "matrix \<Rightarrow> nat \<Rightarrow> nat \<Rightarrow> (nat \<Rightarrow> nat \<Rightarrow> real) \<Rightarrow> error + matrix" where
  "matmul_randn chol_cov n_loading n randn =
     (if length chol_cov = n_loading \<and> list_all (\<lambda>r. length r = n_loading) chol_cov
      then Inr (dot chol_cov (randn_matrix n_loading n randn))
      else Inl ValueError)"

text \<open>Lines 116 to 127: the covariance matrix that goes to the decomposition.\<close>

definition assembled_cov :: "params \<Rightarrow> matrix" where
  "assembled_cov p =
     (let n_loading = rank p * 2 + n_inp p + n_out p
      in case cov p of None \<Rightarrow> build_cov p n_loading | Some c \<Rightarrow> c)"

text \<open>Lines 116 to 136. Nothing catches what \<^verbatim>\<open>np.linalg.cholesky\<close> raises.\<close>

definition initialize_loadings ::
  "(matrix \<Rightarrow> error + matrix) \<Rightarrow> (nat \<Rightarrow> nat \<Rightarrow> real) \<Rightarrow> params \<Rightarrow> bool \<Rightarrow> error + matrix" where
  "initialize_loadings cholesky randn p return_loadings =
     (let n_loading = rank p * 2 + n_inp p + n_out p
      in case cholesky (assembled_cov p) of
           Inl e \<Rightarrow> Inl e
         | Inr chol_cov \<Rightarrow>
             if return_loadings then matmul_randn chol_cov n_loading (n_rec p) randn
             else Inr chol_cov)"

subsection \<open>Notions the properties are stated with\<close>

definition shape :: "nat \<Rightarrow> nat \<Rightarrow> matrix \<Rightarrow> bool" where
  "shape r c w \<longleftrightarrow> length w = r \<and> list_all (\<lambda>row. length row = c) w"

definition nonneg :: "matrix \<Rightarrow> bool" where
  "nonneg w \<longleftrightarrow> list_all (list_all (\<lambda>x. 0 \<le> x)) w"

text \<open>The number of rows of a mask that are the identity's row times \<open>-1\<close>.\<close>

definition inh_rows :: "matrix \<Rightarrow> nat" where
  "inh_rows m =
     length (filter (\<lambda>i. m ! i = map (\<lambda>j. if i = j then - 1 else 0) [0..<length m])
               [0..<length m])"

definition exc_rows :: "matrix \<Rightarrow> nat" where
  "exc_rows m =
     length (filter (\<lambda>i. m ! i = map (\<lambda>j. if i = j then 1 else 0) [0..<length m])
               [0..<length m])"


text \<open>
  A complex number is an eigenvalue of an \<open>n\<close> by \<open>n\<close> real matrix when some vector
  that is not zero is mapped to its multiple; the spectral radius is the largest modulus
  of an eigenvalue.
\<close>

definition eigenvalue :: "nat \<Rightarrow> matrix \<Rightarrow> complex \<Rightarrow> bool" where
  "eigenvalue n a l \<longleftrightarrow>
     (\<exists>v :: nat \<Rightarrow> complex.
        (\<exists>i<n. v i \<noteq> 0) \<and>
        (\<forall>i<n. (\<Sum>j<n. complex_of_real (a ! i ! j) * v j) = l * v i))"

definition is_spectral_radius :: "nat \<Rightarrow> matrix \<Rightarrow> real \<Rightarrow> bool" where
  "is_spectral_radius n a r \<longleftrightarrow>
     (\<exists>l. eigenvalue n a l \<and> cmod l = r) \<and> (\<forall>l. eigenvalue n a l \<longrightarrow> cmod l \<le> r)"

text \<open>
  What \<^verbatim>\<open>np.linalg.eigvals\<close> promises for \<open>n\<close> by \<open>n\<close> arrays: the array it
  returns holds the eigenvalues.
\<close>

definition eigvals_correct :: "nat \<Rightarrow> (matrix \<Rightarrow> complex list) \<Rightarrow> bool" where
  "eigvals_correct n eigvals \<longleftrightarrow>
     (\<forall>a. shape n n a \<longrightarrow> (\<forall>l. l \<in> set (eigvals a) \<longleftrightarrow> eigenvalue n a l))"





subsection \<open>Inputs for the examples\<close>

text \<open>
  What \<^verbatim>\<open>np.linalg.eigvals\<close> computes on triangular arrays (the diagonal), sources of
  draws, and the configurations the examples vary.
\<close>

definition eigvals_triangular :: "matrix \<Rightarrow> complex list" where
  "eigvals_triangular a = map (\<lambda>i. complex_of_real (a ! i ! i)) [0..<length a]"

definition u_zero :: "nat \<Rightarrow> nat \<Rightarrow> uniform01" where
  "u_zero i j = Abs_uniform01 0"

definition cfg0 :: params where
  "cfg0 = \<lparr>n_rec = 1, n_inp = 1, n_out = 1, rank = 1, p_rec = 1, p_inp = 1, p_inh = 1 / 2,
     w_rec_dist = ''gauss'', w_dist = None, spectr_rad = 1, spectr_norm = False,
     apply_dale = False, balance_dale = False, row_balance_dale = False, cov = None\<rparr>"


definition draws :: "nat \<Rightarrow> real" where
  "draws t = (if t = 0 then - 1 else if t = 1 then 2 else if t = 2 then 0 else 3)"

definition cfg_dale :: params where
  "cfg_dale = \<lparr>n_rec = 2, n_inp = 1, n_out = 1, rank = 1, p_rec = 1 / 2, p_inp = 1, p_inh = 1 / 4,
     w_rec_dist = ''gauss'', w_dist = None, spectr_rad = 1, spectr_norm = False,
     apply_dale = True, balance_dale = False, row_balance_dale = False, cov = None\<rparr>"

text \<open>
  What \<^verbatim>\<open>np.linalg.cholesky\<close> returns for the covariance of one coupled pair, a
  table of draws for \<^verbatim>\<open>randn(k, n)\<close>, and a low-rank configuration.
\<close>

definition cholesky_coupled :: "matrix \<Rightarrow> error + matrix" where
  "cholesky_coupled c =
     (if c = [[1, 6 / 10], [6 / 10, 1]] then Inr [[1, 0], [6 / 10, 8 / 10]] else Inl LinAlgError)"

definition randn_example :: "nat \<Rightarrow> nat \<Rightarrow> real" where
  "randn_example k j = real (k + 2 * j + 1)"

definition cfg_lowrank :: params where
  "cfg_lowrank = cfg0\<lparr>rank := 1, n_inp := 0, n_out := 0\<rparr>"

text \<open>Draws and a configuration for the input weights.\<close>

definition u_mixed :: "nat \<Rightarrow> nat \<Rightarrow> uniform01" where
  "u_mixed i j = (if i = 0 then Abs_uniform01 0 else Abs_uniform01 (1 / 2))"

definition cfg_inp :: params where
  "cfg_inp = cfg0\<lparr>n_rec := 2, n_inp := 1, p_inp := 1 / 4\<rparr>"



text \<open>A configuration with the spectral normalisation and the target radius 2.\<close>

definition cfg_norm :: params where
  "cfg_norm = cfg0\<lparr>spectr_norm := True, spectr_rad := 2\<rparr>"

section \<open>Properties\<close>

subsection \<open>The configuration\<close>

lemma Rep_u_zero [simp]: "Rep_uniform01 (u_zero i j) = 0"
  by (simp add: u_zero_def Abs_uniform01_inverse)

lemma fill_w_rec_params:
  "fst (fill_w_rec u normal gam p) =
     (if w_rec_dist p \<noteq> ''gauss'' \<and> w_dist p = Some ''gamma'' then p\<lparr>spectr_norm := True\<rparr> else p)"
  by (cases p) (auto simp: fill_w_rec_def Let_def split: option.splits)

lemma fst_initialize_w_rec:
  "fst (initialize_w_rec eigvals u normal gam p) = fst (fill_w_rec u normal gam p)"
  by (simp add: initialize_w_rec_def split: prod.splits sum.splits)

text \<open>
  Claim C4. The claim: a configuration whose \<open>w_rec_dist\<close> is not \<^verbatim>\<open>"gauss"\<close> and
  which has no \<open>w_dist\<close> key falls through to the Gaussian path and raises nothing. The
  code reads \<^verbatim>\<open>params["w_dist"]\<close> at line 29 before it can reach the branch that
  continues with Gauss: on such a configuration the lookup raises \<^verbatim>\<open>KeyError\<close>,
  nothing is printed and no matrix is returned.
\<close>

theorem missing_w_dist_raises:
  "initialize_w_rec eigvals u normal gam (cfg0\<lparr>w_rec_dist := ''uniform''\<rparr>) =
     (cfg0\<lparr>w_rec_dist := ''uniform''\<rparr>, [], Inl KeyError)"
  by (simp add: initialize_w_rec_def fill_w_rec_def cfg0_def)

text \<open>
  Claim C5. On the Gamma branch (\<open>w_rec_dist\<close> is not \<^verbatim>\<open>"gauss"\<close> and \<open>w_dist\<close> is
  \<^verbatim>\<open>"gamma"\<close>) the configuration the call leaves behind is the one it was given with
  \<open>spectr_norm\<close> set to true, and \<open>apply_dale\<close> is what it was; on every other path
  the configuration is unchanged. This holds whether the call returns or raises.
\<close>

theorem gamma_branch_frame:
  "(w_rec_dist p \<noteq> ''gauss'' \<and> w_dist p = Some ''gamma'' \<longrightarrow>
      fst (initialize_w_rec eigvals u normal gam p) = p\<lparr>spectr_norm := True\<rparr> \<and>
      apply_dale (fst (initialize_w_rec eigvals u normal gam p)) = apply_dale p) \<and>
   (\<not> (w_rec_dist p \<noteq> ''gauss'' \<and> w_dist p = Some ''gamma'') \<longrightarrow>
      fst (initialize_w_rec eigvals u normal gam p) = p)"
  by (simp add: fst_initialize_w_rec fill_w_rec_params)

text \<open>
  The Gamma branch on a configuration with both flags false: \<open>spectr_norm\<close> becomes true
  and \<open>apply_dale\<close> stays false.
\<close>

theorem gamma_branch_frame_witness:
  "fst (initialize_w_rec eigvals_triangular u_zero (\<lambda>t. 1) (\<lambda>t. 1)
          (cfg0\<lparr>w_rec_dist := ''gamma'', w_dist := Some ''gamma''\<rparr>)) =
     cfg0\<lparr>w_rec_dist := ''gamma'', w_dist := Some ''gamma'', spectr_norm := True\<rparr> \<and>
   spectr_norm cfg0 = False \<and> apply_dale cfg0 = False \<and>
   apply_dale (fst (initialize_w_rec eigvals_triangular u_zero (\<lambda>t. 1) (\<lambda>t. 1)
          (cfg0\<lparr>w_rec_dist := ''gamma'', w_dist := Some ''gamma''\<rparr>))) = False"
  using gamma_branch_frame [of "cfg0\<lparr>w_rec_dist := ''gamma'', w_dist := Some ''gamma''\<rparr>"
      eigvals_triangular u_zero "\<lambda>t. 1" "\<lambda>t. 1"]
  by (simp add: cfg0_def)

subsection \<open>\<^verbatim>\<open>initialize_loadings\<close>: errors of the decomposition\<close>











subsection \<open>Shapes\<close>

lemma shape_iff: "shape r c w \<longleftrightarrow> length w = r \<and> (\<forall>i<r. length (w ! i) = c)"
  by (auto simp: shape_def list_all_length)

lemma shape_zeros: "shape r c (zeros r c)"
  by (simp add: shape_iff zeros_def)

lemma shape_eye: "shape n n (eye n)"
  by (simp add: shape_iff eye_def)

lemma shape_put: "shape r c w \<Longrightarrow> shape r c (put w i j v)"
  by (cases "i < length w") (auto simp: shape_iff put_def nth_list_update)

lemma shape_assign: "shape r c w \<Longrightarrow> shape r c (assign w ps vs)"
  by (induction w ps vs rule: assign.induct) (simp_all add: shape_put)

lemma shape_map_map: "shape r c w \<Longrightarrow> shape r c (map (map f) w)"
  by (simp add: shape_iff)

lemma shape_scale: "shape r c w \<Longrightarrow> shape r c (scale b w)"
  by (simp add: scale_def shape_map_map)

lemma shape_scale_cols: "shape r c w \<Longrightarrow> shape r c (scale_cols s e w)"
  by (auto simp: shape_iff scale_cols_def)

lemma py_cut_le: "py_cut a n \<le> n"
  by (auto simp: py_cut_def)

lemma shape_negate_rows: "shape r c m \<Longrightarrow> shape r c (negate_rows s m)"
  by (auto simp: shape_iff negate_rows_def nth_append)

subsection \<open>Decomposing a run\<close>

lemma fill_w_rec_cases:
  "fill_w_rec u normal gam p = (p', out, r) \<Longrightarrow> p' = p \<or> p' = p\<lparr>spectr_norm := True\<rparr>"
  using fill_w_rec_params [of u normal gam p] by (auto split: if_splits)

lemma fill_w_rec_shape:
  "fill_w_rec u normal gam p = (p', out, Inr w0) \<Longrightarrow> shape (n_rec p) (n_rec p) w0"
  by (auto simp: fill_w_rec_def Let_def shape_assign shape_zeros split: if_splits option.splits)

lemma dale_spectr_norm: "dale (p\<lparr>spectr_norm := b\<rparr>) = dale p"
  by (simp add: dale_def inh_count_def fun_eq_iff Let_def)

lemma initialize_w_rec_InrD:
  assumes "initialize_w_rec eigvals u normal gam p = (p', out, Inr (w, m))"
  obtains out0 w0 w1 mx where
    "fill_w_rec u normal gam p = (p', out0, Inr w0)"
    "(if apply_dale p then dale p w0 (eye (n_rec p)) else Inr (Some w0, eye (n_rec p))) = Inr (w1, m)"
    "(if spectr_norm p' then spectral_normalise eigvals (spectr_rad p) m w1 else Inr w1) = Inr (Some w)"
    "max_abs_eig eigvals m (Some w) = Inr mx"
proof -
  obtain p1 out0 r where f: "fill_w_rec u normal gam p = (p1, out0, r)"
    by (cases "fill_w_rec u normal gam p") auto
  from fill_w_rec_cases [OF f] have p1: "apply_dale p1 = apply_dale p" "n_rec p1 = n_rec p"
    "spectr_rad p1 = spectr_rad p" "dale p1 = dale p"
    by (auto simp: dale_spectr_norm)
  from assms f p1 show thesis
    by (auto simp: initialize_w_rec_def report_def intro!: that
        split: sum.splits prod.splits option.splits if_splits)
qed

lemma dale_mask:
  "dale p w0 dm = Inr (w1, m) \<Longrightarrow>
     m = negate_rows (py_cut (- inh_count p) (n_rec p)) dm"
  by (auto simp: dale_def Let_def split: if_splits)

lemma initialize_w_rec_mask:
  assumes "initialize_w_rec eigvals u normal gam p = (p', out, Inr (w, m))"
  shows "m = (if apply_dale p
              then negate_rows (py_cut (- inh_count p) (n_rec p)) (eye (n_rec p))
              else eye (n_rec p))"
  using assms by (elim initialize_w_rec_InrD) (auto dest: dale_mask split: if_splits)

subsection \<open>The mask\<close>

lemma negate_rows_eye_nth:
  assumes "s \<le> n" "i < n"
  shows "negate_rows s (eye n) ! i = map (\<lambda>j. if i = j then (if s \<le> i then - 1 else 1) else 0) [0..<n]"
proof (cases "i < s")
  case True
  with assms show ?thesis
    by (simp add: negate_rows_def eye_def nth_append)
next
  case False
  with assms show ?thesis
    by (simp add: negate_rows_def eye_def nth_append min_def)
qed

lemma length_negate_rows: "length (negate_rows s m) = length m"
  by (simp add: negate_rows_def)

lemma length_eye: "length (eye n) = n"
  by (simp add: eye_def)

lemma filter_ge_upt: "filter (\<lambda>i. s \<le> i) [0..<n] = [s..<n]"
  by (induction n) (auto simp: upt_conv_Nil not_less_eq_eq le_Suc_eq)

lemma filter_lt_upt: "filter (\<lambda>i. i < s) [0..<n] = [0..<min s n]"
  by (induction n) (auto simp: min_def elim: le_SucE)

lemma unit_row_eq:
  "i < n \<Longrightarrow> a \<noteq> b \<Longrightarrow>
     (map (\<lambda>j. if i = j then a else 0) [0..<n] = map (\<lambda>j. if i = j then (b :: real) else 0) [0..<n]) = False"
  by (auto simp: list_eq_iff_nth_eq)

lemma inh_rows_negate_eye:
  assumes "s \<le> n"
  shows "inh_rows (negate_rows s (eye n)) = n - s"
proof -
  have "filter (\<lambda>i. negate_rows s (eye n) ! i = map (\<lambda>j. if i = j then - 1 else 0) [0..<n]) [0..<n]
        = filter (\<lambda>i. s \<le> i) [0..<n]"
    by (rule filter_cong) (auto simp: negate_rows_eye_nth assms unit_row_eq list_eq_iff_nth_eq)
  then show ?thesis
    by (simp add: inh_rows_def length_negate_rows length_eye filter_ge_upt)
qed

lemma exc_rows_negate_eye:
  assumes "s \<le> n"
  shows "exc_rows (negate_rows s (eye n)) = s"
proof -
  have "filter (\<lambda>i. negate_rows s (eye n) ! i = map (\<lambda>j. if i = j then 1 else 0) [0..<n]) [0..<n]
        = filter (\<lambda>i. i < s) [0..<n]"
    by (rule filter_cong) (auto simp: negate_rows_eye_nth assms unit_row_eq list_eq_iff_nth_eq)
  then show ?thesis
    using assms by (simp add: exc_rows_def length_negate_rows length_eye filter_lt_upt)
qed

lemma py_int_small: "0 < x \<Longrightarrow> x < 1 \<Longrightarrow> py_int x = 0"
  by (simp add: py_int_def floor_eq_iff)

text \<open>
  Claim C9. With \<open>apply_dale\<close> true and the product \<^verbatim>\<open>n_rec * p_inh\<close> of line 54 (the
  float the program computes, \<open>py_float_mul\<close>) strictly between 0 and 1, the inhibitory
  count \<^verbatim>\<open>int(n_rec * p_inh)\<close> is 0, the slice \<^verbatim>\<open>dale_mask[-0:]\<close> starts at row 0,
  and the mask of every run that returns is the identity times \<open>-1\<close>: every diagonal entry
  is \<open>-1\<close>, all \<open>n_rec\<close> rows are inhibitory and none is excitatory.
\<close>

theorem small_inhibitory_count_negates_all:
  assumes "apply_dale p"
    and "0 < py_float_mul (real (n_rec p)) (p_inh p)"
    and "py_float_mul (real (n_rec p)) (p_inh p) < 1"
    and "initialize_w_rec eigvals u normal gam p = (p', out, Inr (w, m))"
  shows "inh_count p = 0 \<and>
         py_cut (- inh_count p) (n_rec p) = 0 \<and>
         m = map (map (\<lambda>x. x * (- 1))) (eye (n_rec p)) \<and>
         (\<forall>i<n_rec p. m ! i ! i = - 1) \<and>
         inh_rows m = n_rec p \<and> exc_rows m = 0"
proof -
  have k: "inh_count p = 0"
    unfolding inh_count_def using assms(2,3) by (rule py_int_small)
  then have s: "py_cut (- inh_count p) (n_rec p) = 0"
    by (simp add: py_cut_def)
  have m: "m = negate_rows 0 (eye (n_rec p))"
    using initialize_w_rec_mask [OF assms(4)] assms(1) s by simp
  have "\<forall>i<n_rec p. m ! i ! i = - 1"
    by (simp add: m negate_rows_eye_nth)
  moreover have "m = map (map (\<lambda>x. x * (- 1))) (eye (n_rec p))"
    by (simp add: m negate_rows_def)
  moreover have "inh_rows m = n_rec p" "exc_rows m = 0"
    by (simp_all add: m inh_rows_negate_eye exc_rows_negate_eye)
  ultimately show ?thesis using k s by simp
qed

subsection \<open>The float product on examples\<close>

lemma round_double_binade:
  assumes "0 < x" "2 powr of_int e \<le> x" "x < 2 powr (of_int e + 1)"
  shows "round_double x = of_int (round_even (x * 2 powr (52 - of_int e))) * 2 powr (of_int e - 52)"
proof -
  have "\<lfloor>log 2 \<bar>x\<bar>\<rfloor> = e"
    using assms by (simp add: floor_log_eq_powr_iff)
  with assms(1) show ?thesis
    by (simp add: round_double_def Let_def)
qed

lemma round_double_half: "round_double (1 / 2) = 1 / 2"
  using round_double_binade [of "1 / 2" "- 1"]
  by (simp add: powr_minus_divide round_even_def)

lemma round_double_7_4: "round_double (7 / 4) = 7 / 4"
  using round_double_binade [of "7 / 4" "0"]
  by (simp add: powr_minus_divide round_even_def)


text \<open>
  The doubles nearest to \<open>0.3\<close> and to \<open>1 / 3\<close> are \<open>5404319552844595 / 2 ^ 54\<close> and
  \<open>6004799503160661 / 2 ^ 54\<close>. Ten times the first is below 3 and three times the second
  is below 1, and the machine rounds the products to \<open>3.0\<close> and to \<open>1.0\<close> (the second is a
  tie): line 54 counts 3 and 1 inhibitory neurons.
\<close>

lemma round_double_10_times_03: "round_double (10 * (5404319552844595 / 2 ^ 54)) = 3"
  using round_double_binade [of "10 * (5404319552844595 / 2 ^ 54)" "1"]
  by (simp add: powr_minus_divide round_even_def)

lemma round_double_3_times_third: "round_double (3 * (6004799503160661 / 2 ^ 54)) = 1"
  using round_double_binade [of "3 * (6004799503160661 / 2 ^ 54)" "- 1"]
  by (simp add: powr_minus_divide round_even_def)

lemma inh_count_examples:
  "inh_count (cfg_dale\<lparr>n_rec := 10, p_inh := 5404319552844595 / 2 ^ 54\<rparr>) = 3"
  "inh_count (cfg_dale\<lparr>n_rec := 3, p_inh := 6004799503160661 / 2 ^ 54\<rparr>) = 1"
  using round_double_10_times_03 round_double_3_times_third
  by (simp_all add: inh_count_def py_float_mul_def py_int_def cfg_dale_def)

lemmas run_defs = initialize_w_rec_def fill_w_rec_def dale_def inh_count_def py_float_mul_def
  report_def max_abs_eig_def
  spectral_normalise_def div_mat_def gauss_vals_def np_where_lt_def zeros_def eye_def put_def
  py_int_def py_cut_def negate_rows_def dot_def ncols_def scale_cols_def Let_def

subsection \<open>Signs of the weights\<close>

lemma nonneg_iff: "nonneg w \<longleftrightarrow> (\<forall>row\<in>set w. \<forall>x\<in>set row. 0 \<le> x)"
  by (simp add: nonneg_def list_all_iff)

lemma nonneg_abs: "nonneg (map (map abs) w)"
  by (auto simp: nonneg_iff)

lemma nonneg_scale_cols: "nonneg w \<Longrightarrow> 0 \<le> e \<Longrightarrow> nonneg (scale_cols s e w)"
  by (auto simp: nonneg_iff scale_cols_def dest: in_set_takeD in_set_dropD)

lemma nonneg_scale: "nonneg w \<Longrightarrow> 0 \<le> b \<Longrightarrow> nonneg (scale b w)"
  by (auto simp: nonneg_iff scale_def)

lemma nonneg_scale_np: "nonneg w \<Longrightarrow> scale_np (np_sqrt x) w = Some w' \<Longrightarrow> nonneg w'"
  by (auto simp: np_sqrt_def nonneg_scale split: if_splits)

lemma those_eq_Some: "those xs = Some ys \<longleftrightarrow> xs = map Some ys"
  by (induction xs arbitrary: ys) (auto split: option.splits)

lemma div_by_np_div_nonneg:
  assumes "0 \<le> x" "0 \<le> a" "0 \<le> b" "to_real (div_by x (np_div a b)) = Some r"
  shows "0 \<le> r"
  using assms by (auto simp: np_div_def split: if_splits)

lemma sum_list_nonneg_set: "\<forall>x\<in>set xs. (0 :: real) \<le> x \<Longrightarrow> 0 \<le> sum_list xs"
  by (induction xs) auto

lemma nonneg_balance_row:
  assumes "\<forall>x\<in>set row. 0 \<le> x" "balance_row s row = Some row'"
  shows "\<forall>x\<in>set row'. 0 \<le> x"
proof -
  from assms(2) obtain xs where
    xs: "map (\<lambda>x. to_real (div_by x (np_div (ex_u s row) (in_u s row)))) (take s row) = map Some xs"
    and row': "row' = xs @ drop s row"
    by (auto simp: balance_row_def Let_def those_eq_Some)
  have ex: "0 \<le> ex_u s row" and inn: "0 \<le> in_u s row"
    using assms(1) by (auto simp: ex_u_def in_u_def intro!: sum_list_nonneg_set dest: in_set_takeD in_set_dropD)
  have "0 \<le> r" if "r \<in> set xs" for r
  proof -
    from that obtain i where i: "i < length xs" "xs ! i = r"
      by (auto simp: in_set_conv_nth)
    from xs have len: "length xs = length (take s row)"
      by (metis length_map)
    from xs i len have "to_real (div_by (take s row ! i) (np_div (ex_u s row) (in_u s row))) = Some r"
      by (metis nth_map)
    moreover have "0 \<le> take s row ! i"
      using assms(1) i len by (metis in_set_takeD nth_mem)
    ultimately show ?thesis
      using ex inn by (rule div_by_np_div_nonneg [rotated 3])
  qed
  then show ?thesis
    using assms(1) by (auto simp: row' dest: in_set_dropD)
qed

lemma nonneg_row_balance: "nonneg w \<Longrightarrow> row_balance s w = Some w' \<Longrightarrow> nonneg w'"
proof -
  assume w: "nonneg w" and r: "row_balance s w = Some w'"
  from r have m: "map (balance_row s) w = map Some w'"
    by (simp add: row_balance_def those_eq_Some)
  then have len: "length w' = length w"
    by (metis length_map)
  show "nonneg w'"
    unfolding nonneg_iff
  proof
    fix row' assume "row' \<in> set w'"
    then obtain i where i: "i < length w'" "w' ! i = row'"
      by (auto simp: in_set_conv_nth)
    with m len have "balance_row s (w ! i) = Some row'"
      by (metis nth_map)
    moreover have "\<forall>x\<in>set (w ! i). 0 \<le> x"
      using w i len by (auto simp: nonneg_iff)
    ultimately show "\<forall>x\<in>set row'. 0 \<le> x"
      by (rule nonneg_balance_row [rotated])
  qed
qed

lemma nonneg_dale:
  assumes "dale p w0 dm = Inr (Some w1, m)" and "balance_dale p \<longrightarrow> 0 \<le> (1 - p_inh p) / p_inh p"
  shows "nonneg w1"
proof (cases "balance_dale p")
  case False
  with assms show ?thesis
    by (auto simp: dale_def Let_def nonneg_abs)
next
  case True
  let ?s = "py_cut (- inh_count p) (n_rec p)"
  let ?w2 = "scale_cols ?s ((1 - p_inh p) / p_inh p) (map (map abs) w0)"
  have w2: "nonneg ?w2"
    using assms(2) True by (simp add: nonneg_scale_cols nonneg_abs)
  from assms(1) True obtain w3 where
    w3: "(if row_balance_dale p then row_balance ?s ?w2 else Some ?w2) = Some w3"
    and w1: "scale_np (np_sqrt ((1 / (1 - (2 * p_rec p) / pi)) / ((1 - p_inh p) / p_inh p))) w3 = Some w1"
    by (auto simp: dale_def Let_def split: if_splits Option.bind_splits)
  from w3 w2 have "nonneg w3"
    by (auto split: if_splits dest: nonneg_row_balance)
  then show ?thesis using w1 by (rule nonneg_scale_np)
qed

lemma fold_max_nonneg: "(0 :: real) \<le> x \<Longrightarrow> 0 \<le> fold max xs x"
  by (induction xs arbitrary: x) (auto simp: max_def)

lemma max_abs_eig_nonneg: "max_abs_eig eigvals m w = Inr mx \<Longrightarrow> 0 \<le> mx"
  by (auto simp: max_abs_eig_def fold_max_nonneg split: option.splits list.splits)

lemma nonneg_spectral_normalise:
  assumes "spectral_normalise eigvals rad m (Some w1) = Inr (Some w)" "nonneg w1" "0 \<le> rad"
  shows "nonneg w"
proof -
  from assms(1) obtain mx where mx: "max_abs_eig eigvals m (Some w1) = Inr mx"
    and w: "div_mat (map (map (\<lambda>x. rad * x)) w1) mx = Some w"
    by (auto simp: spectral_normalise_def split: sum.splits)
  have "0 \<le> mx" using mx by (rule max_abs_eig_nonneg)
  with w assms(2,3) show ?thesis
    by (auto simp: div_mat_def nonneg_iff split: if_splits)
qed

subsection \<open>\<^verbatim>\<open>initialize_w_rec\<close> under Dale's law\<close>

lemma py_cut_last: "1 \<le> k \<Longrightarrow> k \<le> int n \<Longrightarrow> py_cut (- k) n = n - nat k"
  by (auto simp: py_cut_def)

text \<open>
  Claim C1, as amended. For a configuration with \<open>apply_dale\<close> true, every run that returns
  gives
  \<^item> a weight matrix whose entries are all non-negative, when \<open>p_inh\<close> lies in \<open>(0, 1]\<close>
    in case \<open>balance_dale\<close> is set (so that \<open>EIratio\<close> is not negative), and \<open>spectr_rad\<close>
    is not negative in case the spectral normalisation runs;
  \<^item> the mask \<^verbatim>\<open>dale_mask[-n_inh:] *= -1\<close> of the identity, with
    \<^verbatim>\<open>n_inh = int(n_rec * p_inh)\<close>: the float product truncated, not rounded. When
    \<open>1 \<le> n_inh \<le> n_rec\<close>, exactly the last \<open>n_inh\<close> rows are the identity's rows times
    \<open>-1\<close> and the \<open>n_rec - n_inh\<close> rows before them are the identity's.
\<close>

theorem dale_weights_and_mask:
  assumes ret: "initialize_w_rec eigvals u normal gam p = (p', out, Inr (w, m))"
    and dale: "apply_dale p"
  shows "((balance_dale p \<longrightarrow> 0 < p_inh p \<and> p_inh p \<le> 1) \<and>
          (spectr_norm p' \<longrightarrow> 0 \<le> spectr_rad p) \<longrightarrow> nonneg w) \<and>
         m = negate_rows (py_cut (- inh_count p) (n_rec p)) (eye (n_rec p)) \<and>
         (1 \<le> inh_count p \<and> inh_count p \<le> int (n_rec p) \<longrightarrow>
            length m = n_rec p \<and>
            (\<forall>i<n_rec p. m ! i = map (\<lambda>j. if i = j
                 then (if n_rec p - nat (inh_count p) \<le> i then - 1 else 1)
                 else 0) [0..<n_rec p]) \<and>
            inh_rows m = nat (inh_count p) \<and>
            exc_rows m = n_rec p - nat (inh_count p))"
proof -
  let ?k = "inh_count p"
  let ?s = "n_rec p - nat ?k"
  have m: "m = negate_rows (py_cut (- ?k) (n_rec p)) (eye (n_rec p))"
    using initialize_w_rec_mask [OF ret] dale by simp
  have mask: "length m = n_rec p \<and>
      (\<forall>i<n_rec p. m ! i = map (\<lambda>j. if i = j then (if ?s \<le> i then - 1 else 1) else 0) [0..<n_rec p]) \<and>
      inh_rows m = nat ?k \<and> exc_rows m = ?s"
    if k: "1 \<le> ?k \<and> ?k \<le> int (n_rec p)"
  proof -
    from k have s: "py_cut (- ?k) (n_rec p) = ?s"
      by (intro py_cut_last) simp_all
    have le: "?s \<le> n_rec p" by simp
    from k have d: "n_rec p - ?s = nat ?k" by linarith
    show ?thesis
      by (simp add: m s d length_negate_rows length_eye negate_rows_eye_nth [OF le]
          inh_rows_negate_eye [OF le] exc_rows_negate_eye [OF le])
  qed
  have weights: "nonneg w"
    if h: "(balance_dale p \<longrightarrow> 0 < p_inh p \<and> p_inh p \<le> 1) \<and> (spectr_norm p' \<longrightarrow> 0 \<le> spectr_rad p)"
  proof -
    from ret obtain out0 w0 w1 mx where
      d: "(if apply_dale p then dale p w0 (eye (n_rec p)) else Inr (Some w0, eye (n_rec p))) = Inr (w1, m)"
      and sp: "(if spectr_norm p' then spectral_normalise eigvals (spectr_rad p) m w1 else Inr w1) = Inr (Some w)"
      by (rule initialize_w_rec_InrD)
    have e: "balance_dale p \<longrightarrow> 0 \<le> (1 - p_inh p) / p_inh p"
      using h by auto
    have nn: "nonneg a" if "w1 = Some a" for a
      using d dale that e by (auto intro!: nonneg_dale [of p w0 "eye (n_rec p)" a m])
    show ?thesis
    proof (cases "spectr_norm p'")
      case False
      with sp have "w1 = Some w" by simp
      then show ?thesis by (rule nn)
    next
      case True
      with sp have sn: "spectral_normalise eigvals (spectr_rad p) m w1 = Inr (Some w)"
        by simp
      then obtain a where a: "w1 = Some a"
        by (cases w1) (auto simp: spectral_normalise_def max_abs_eig_def)
      from True h have "0 \<le> spectr_rad p" by simp
      with sn [unfolded a] nn [OF a] show ?thesis
        by (rule nonneg_spectral_normalise)
    qed
  qed
  from m mask weights show ?thesis by blast
qed

lemma run_cfg_dale:
  "initialize_w_rec eigvals_triangular u_zero draws draws cfg_dale
     = (cfg_dale, [SpectralRad 3], Inr ([[1, 2], [0, 3]], [[- 1, 0], [0, - 1]]))"
  by (simp add: run_defs cfg_dale_def eigvals_triangular_def draws_def round_double_half
      eval_nat_numeral)

lemma run_cfg_dale_78:
  "initialize_w_rec eigvals_triangular u_zero draws draws (cfg_dale\<lparr>p_inh := 7 / 8\<rparr>)
     = (cfg_dale\<lparr>p_inh := 7 / 8\<rparr>, [SpectralRad 3], Inr ([[1, 2], [0, 3]], [[1, 0], [0, - 1]]))"
  by (simp add: run_defs cfg_dale_def eigvals_triangular_def draws_def round_double_7_4
      eval_nat_numeral)

text \<open>
  Two neurons with \<open>p_inh = 1 / 4\<close>: the product is \<open>1 / 2\<close>, and both rows of the
  returned mask are negated.
\<close>

theorem small_inhibitory_count_negates_all_witness:
  "apply_dale cfg_dale \<and>
   py_float_mul (real (n_rec cfg_dale)) (p_inh cfg_dale) = 1 / 2 \<and>
   initialize_w_rec eigvals_triangular u_zero draws draws cfg_dale
     = (cfg_dale, [SpectralRad 3], Inr ([[1, 2], [0, 3]], [[- 1, 0], [0, - 1]])) \<and>
   inh_count cfg_dale = 0 \<and>
   inh_rows [[- 1, 0], [0, - 1]] = 2 \<and> exc_rows [[- 1, 0], [0, - 1 :: real]] = 0"
proof -
  have pr: "py_float_mul (real (n_rec cfg_dale)) (p_inh cfg_dale) = 1 / 2"
    by (simp add: cfg_dale_def py_float_mul_def round_double_half)
  have h: "apply_dale cfg_dale" "0 < py_float_mul (real (n_rec cfg_dale)) (p_inh cfg_dale)"
    "py_float_mul (real (n_rec cfg_dale)) (p_inh cfg_dale) < 1"
    by (simp_all add: pr) (simp add: cfg_dale_def)
  have n: "n_rec cfg_dale = 2"
    by (simp add: cfg_dale_def)
  from small_inhibitory_count_negates_all [OF h run_cfg_dale]
  have "inh_count cfg_dale = 0"
    "inh_rows [[- 1, 0], [0, - 1]] = n_rec cfg_dale" "exc_rows [[- 1, 0], [0, - 1 :: real]] = 0"
    by blast+
  with h pr run_cfg_dale n show ?thesis by simp
qed

text \<open>
  The claim C1 as stated fails: with two neurons and \<open>p_inh = 7 / 8\<close> the product is
  \<open>1.75\<close>, which rounds to 2 and truncates to 1, and the returned mask has one inhibitory
  row and one excitatory row.
\<close>

theorem dale_mask_count_counterexample:
  "apply_dale (cfg_dale\<lparr>p_inh := 7 / 8\<rparr>) \<and>
   initialize_w_rec eigvals_triangular u_zero draws draws (cfg_dale\<lparr>p_inh := 7 / 8\<rparr>)
     = (cfg_dale\<lparr>p_inh := 7 / 8\<rparr>, [SpectralRad 3], Inr ([[1, 2], [0, 3]], [[1, 0], [0, - 1]])) \<and>
   py_float_mul (real (n_rec (cfg_dale\<lparr>p_inh := 7 / 8\<rparr>))) (p_inh (cfg_dale\<lparr>p_inh := 7 / 8\<rparr>)) = 7 / 4 \<and>
   round (7 / 4 :: real) = 2 \<and>
   inh_rows [[1, 0], [0, - 1]] = 1 \<and> exc_rows [[1, 0], [0, - 1 :: real]] = 1"
  by (simp add: run_cfg_dale_78)
    (simp add: cfg_dale_def py_float_mul_def round_double_7_4 inh_rows_def exc_rows_def round_def
      eval_nat_numeral)

text \<open>The same configuration satisfies the amended statement, with the count 1.\<close>

theorem dale_weights_and_mask_witness:
  "apply_dale (cfg_dale\<lparr>p_inh := 7 / 8\<rparr>) \<and>
   initialize_w_rec eigvals_triangular u_zero draws draws (cfg_dale\<lparr>p_inh := 7 / 8\<rparr>)
     = (cfg_dale\<lparr>p_inh := 7 / 8\<rparr>, [SpectralRad 3], Inr ([[1, 2], [0, 3]], [[1, 0], [0, - 1]])) \<and>
   0 < p_inh (cfg_dale\<lparr>p_inh := 7 / 8\<rparr>) \<and> p_inh (cfg_dale\<lparr>p_inh := 7 / 8\<rparr>) \<le> 1 \<and>
   0 \<le> spectr_rad (cfg_dale\<lparr>p_inh := 7 / 8\<rparr>) \<and>
   inh_count (cfg_dale\<lparr>p_inh := 7 / 8\<rparr>) = 1 \<and> n_rec (cfg_dale\<lparr>p_inh := 7 / 8\<rparr>) = 2 \<and>
   nonneg [[1, 2], [0, 3]] \<and>
   [[1, 0], [0, - 1]] = negate_rows 1 (eye 2) \<and>
   inh_rows [[1, 0], [0, - 1]] = 1 \<and> exc_rows [[1, 0], [0, - 1 :: real]] = 1"
proof -
  let ?c = "cfg_dale\<lparr>p_inh := 7 / 8\<rparr>"
  have h: "apply_dale ?c" "0 < p_inh ?c" "p_inh ?c \<le> 1" "0 \<le> spectr_rad ?c"
    by (simp_all add: cfg_dale_def)
  have k: "inh_count ?c = 1"
    by (simp add: inh_count_def py_float_mul_def cfg_dale_def round_double_7_4 py_int_def)
  have n: "n_rec ?c = 2"
    by (simp add: cfg_dale_def)
  have c: "py_cut (- 1) 2 = 1"
    by (simp add: py_cut_def)
  note t = dale_weights_and_mask [OF run_cfg_dale_78 h(1), unfolded k, unfolded n, unfolded c]
  from t h have "nonneg [[1, 2], [0, 3]]"
    by blast
  moreover from t have "[[1, 0], [0, - 1]] = negate_rows 1 (eye 2)"
    by blast
  moreover from t have "inh_rows [[1, 0], [0, - 1]] = nat 1" "exc_rows [[1, 0], [0, - 1 :: real]] = 2 - nat 1"
    by auto
  ultimately show ?thesis
    using h k n run_cfg_dale_78 by simp
qed

subsection \<open>Row balancing\<close>


lemma sum_list_map_times: "sum_list (map (\<lambda>x. x * c) xs) = sum_list xs * (c :: real)"
  by (induction xs) (simp_all add: distrib_right)



















subsection \<open>The divisor of the row balancing\<close>

lemma sum_list_pos_set:
  "\<forall>x\<in>set xs. (0 :: real) \<le> x \<Longrightarrow> \<exists>x\<in>set xs. x \<noteq> 0 \<Longrightarrow> 0 < sum_list xs"
proof (induction xs)
  case Nil
  then show ?case by simp
next
  case (Cons a xs)
  have nn: "0 \<le> sum_list xs"
    using Cons.prems(1) by (intro sum_list_nonneg_set) simp
  show ?case
  proof (cases "a = 0")
    case True
    with Cons show ?thesis by simp
  next
    case False
    with Cons.prems(1) have "0 < a" by simp
    with nn show ?thesis by simp
  qed
qed

lemma drop_scaled_row:
  "drop s (take s r @ map (\<lambda>x. x * e) (drop s r)) = map (\<lambda>x. x * e) (drop s r)"
  by (cases "s \<le> length r") simp_all

text \<open>
  Claim C10. The row balancing reads the matrix left by the absolute value (line 57) and
  the scaling of the inhibitory columns by \<open>EIratio\<close> (line 62), here \<open>e\<close>. When every
  row of that matrix has a nonzero entry in an inhibitory column, every divisor
  \<^verbatim>\<open>in_u\<close> of line 68 is nonzero, so the division gives a finite ratio and never an
  infinity or NaN; the divisor is strictly positive when \<open>EIratio\<close> is not negative.
\<close>

theorem row_balance_divisor_nonzero:
  assumes "\<forall>row\<in>set (scale_cols s e (map (map abs) w0)). \<exists>x\<in>set (drop s row). x \<noteq> 0"
  shows "\<forall>row\<in>set (scale_cols s e (map (map abs) w0)).
           in_u s row \<noteq> 0 \<and>
           np_div (ex_u s row) (in_u s row) = Finite (ex_u s row / in_u s row) \<and>
           (0 \<le> e \<longrightarrow> 0 < in_u s row)"
proof
  fix row assume row: "row \<in> set (scale_cols s e (map (map abs) w0))"
  then obtain r0 where r0: "r0 \<in> set w0"
    and row_eq: "row = take s (map abs r0) @ map (\<lambda>x. x * e) (drop s (map abs r0))"
    by (auto simp: scale_cols_def)
  let ?inh = "drop s (map abs r0)"
  have d: "drop s row = map (\<lambda>x. x * e) ?inh"
    unfolding row_eq by (rule drop_scaled_row)
  from assms row obtain x where "x \<in> set (drop s row)" "x \<noteq> 0"
    by blast
  then obtain y where y: "y \<in> set ?inh" "y * e \<noteq> 0"
    unfolding d by auto
  then have e: "e \<noteq> 0" and "y \<noteq> 0" by auto
  have "\<forall>x\<in>set ?inh. 0 \<le> x"
    by (auto dest!: in_set_dropD)
  moreover have "\<exists>x\<in>set ?inh. x \<noteq> 0"
    using y(1) \<open>y \<noteq> 0\<close> by blast
  ultimately have pos: "0 < sum_list ?inh"
    by (rule sum_list_pos_set)
  have inu: "in_u s row = sum_list ?inh * e"
    by (simp add: in_u_def d sum_list_map_times)
  with pos e have nz: "in_u s row \<noteq> 0" by simp
  moreover have "0 < in_u s row" if "0 \<le> e"
    using that e pos by (simp add: inu)
  ultimately show "in_u s row \<noteq> 0 \<and>
      np_div (ex_u s row) (in_u s row) = Finite (ex_u s row / in_u s row) \<and>
      (0 \<le> e \<longrightarrow> 0 < in_u s row)"
    by (simp add: np_div_def)
qed

text \<open>The weights \<open>[[-1, 2], [0, 3]]\<close> with one inhibitory column and \<open>EIratio = 3\<close>.\<close>

theorem row_balance_divisor_nonzero_witness:
  "scale_cols 1 3 (map (map abs) [[- 1, 2], [0, 3]]) = [[1, 6], [0, 9]] \<and>
   drop 1 [1, 6 :: real] = [6] \<and> drop 1 [0, 9 :: real] = [9] \<and>
   in_u 1 [1, 6] = 6 \<and> in_u 1 [0, 9] = 9 \<and>
   np_div (ex_u 1 [1, 6]) (in_u 1 [1, 6]) = Finite (ex_u 1 [1, 6] / in_u 1 [1, 6]) \<and>
   np_div (ex_u 1 [0, 9]) (in_u 1 [0, 9]) = Finite (ex_u 1 [0, 9] / in_u 1 [0, 9]) \<and>
   0 < in_u 1 [1, 6] \<and> 0 < in_u 1 [0, 9]"
proof -
  have w2: "scale_cols 1 3 (map (map abs) [[- 1, 2], [0, 3]]) = [[1, 6], [0, 9]]"
    by (simp add: scale_cols_def)
  have h: "\<forall>row\<in>set (scale_cols 1 3 (map (map abs) [[- 1, 2], [0, 3]])). \<exists>x\<in>set (drop 1 row). x \<noteq> 0"
    unfolding w2 by simp
  from row_balance_divisor_nonzero [OF h, unfolded w2]
  have "np_div (ex_u 1 [1, 6]) (in_u 1 [1, 6]) = Finite (ex_u 1 [1, 6] / in_u 1 [1, 6])"
    "np_div (ex_u 1 [0, 9]) (in_u 1 [0, 9]) = Finite (ex_u 1 [0, 9] / in_u 1 [0, 9])"
    "0 < in_u 1 [1, 6]" "0 < in_u 1 [0, 9]"
    by auto
  with w2 show ?thesis by (simp add: in_u_def)
qed

subsection \<open>\<^verbatim>\<open>initialize_loadings\<close>: the covariance matrix and the result\<close>

lemma put_nth:
  "i < length w \<Longrightarrow> j < length (w ! i) \<Longrightarrow>
     put w i' j' v ! i ! j = (if i' = i \<and> j' = j then v else w ! i ! j)"
  by (cases "i' = i") (auto simp: put_def nth_list_update)

lemma put_put_nth:
  assumes "shape k k c" "a < k" "b < k"
  shows "put (put c i j v) i' j' v' ! a ! b =
           (if a = i' \<and> b = j' then v' else if a = i \<and> b = j then v else c ! a ! b)"
proof -
  have s1: "shape k k (put c i j v)"
    using assms(1) by (rule shape_put)
  from assms(1,2) s1 have len: "a < length c" "a < length (put c i j v)"
    "length (c ! a) = k" "length (put c i j v ! a) = k"
    by (simp_all add: shape_iff)
  from assms(3) len have b: "b < length (c ! a)" "b < length (put c i j v ! a)"
    by simp_all
  show ?thesis
    unfolding put_nth [OF len(2) b(2)] put_nth [OF len(1) b(1)] by auto
qed

lemma eye_nth: "a < n \<Longrightarrow> b < n \<Longrightarrow> eye n ! a ! b = (if a = b then 1 else 0)"
  by (simp add: eye_def)

lemma shape_cov_step: "shape r c w \<Longrightarrow> shape r c (cov_step p i w)"
  by (simp add: cov_step_def shape_put)

lemma shape_fold_cov_step: "shape r c w \<Longrightarrow> shape r c (fold (cov_step p) is w)"
  by (induction "is" arbitrary: w) (simp_all add: shape_cov_step)

lemma cov_step_nth:
  assumes "shape k k c" "a < k" "b < k"
  shows "cov_step p i c ! a ! b =
           (if (a = n_inp p + i \<and> b = n_inp p + rank p + i) \<or>
               (a = n_inp p + rank p + i \<and> b = n_inp p + i)
            then 6 / 10 else c ! a ! b)"
  unfolding cov_step_def put_put_nth [OF assms] by auto

lemma ex_less_Suc: "(\<exists>i<Suc m. P i) \<longleftrightarrow> P m \<or> (\<exists>i<m. P i)"
  by (auto simp: less_Suc_eq)

lemma fold_cov_step_nth:
  assumes "m \<le> rank p" "n_inp p + 2 * rank p \<le> k" "a < k" "b < k"
  shows "fold (cov_step p) [0..<m] (eye k) ! a ! b =
           (if \<exists>i<m. (a = n_inp p + i \<and> b = n_inp p + rank p + i) \<or>
                      (a = n_inp p + rank p + i \<and> b = n_inp p + i)
            then 6 / 10 else if a = b then 1 else 0)"
  using assms(1)
proof (induction m)
  case 0
  then show ?case using assms(3,4) by (simp add: eye_nth)
next
  case (Suc m)
  have sh: "shape k k (fold (cov_step p) [0..<m] (eye k))"
    by (rule shape_fold_cov_step) (rule shape_eye)
  from Suc have IH: "fold (cov_step p) [0..<m] (eye k) ! a ! b =
           (if \<exists>i<m. (a = n_inp p + i \<and> b = n_inp p + rank p + i) \<or>
                      (a = n_inp p + rank p + i \<and> b = n_inp p + i)
            then 6 / 10 else if a = b then 1 else 0)"
    by simp
  have step: "fold (cov_step p) [0..<Suc m] (eye k)
                = cov_step p m (fold (cov_step p) [0..<m] (eye k))"
    by simp
  define A where "A \<longleftrightarrow> (a = n_inp p + m \<and> b = n_inp p + rank p + m) \<or>
                       (a = n_inp p + rank p + m \<and> b = n_inp p + m)"
  define B where "B \<longleftrightarrow> (\<exists>i<m. (a = n_inp p + i \<and> b = n_inp p + rank p + i) \<or>
                              (a = n_inp p + rank p + i \<and> b = n_inp p + i))"
  have exS: "(\<exists>i<Suc m. (a = n_inp p + i \<and> b = n_inp p + rank p + i) \<or>
                        (a = n_inp p + rank p + i \<and> b = n_inp p + i)) \<longleftrightarrow> A \<or> B"
    unfolding A_def B_def by (rule ex_less_Suc)
  have "fold (cov_step p) [0..<Suc m] (eye k) ! a ! b
          = (if A then 6 / 10 else fold (cov_step p) [0..<m] (eye k) ! a ! b)"
    unfolding step A_def by (rule cov_step_nth [OF sh assms(3,4)])
  also have "\<dots> = (if A then 6 / 10 else if B then 6 / 10 else if a = b then 1 else 0)"
    unfolding B_def IH ..
  also have "\<dots> = (if A \<or> B then 6 / 10 else if a = b then 1 else 0)"
    by simp
  finally show ?case
    unfolding exS .
qed

text \<open>
  Claim C7. With \<open>cov = None\<close> and \<open>k = 2 * rank + n_inp + n_out\<close> the matrix that goes to
  the decomposition is the one built at lines 121 to 124: a \<open>k\<close> by \<open>k\<close> matrix that is the
  identity except for the entries \<open>0.6\<close> at \<open>(n_inp + i, n_inp + rank + i)\<close> and
  \<open>(n_inp + rank + i, n_inp + i)\<close> for every \<open>i < rank\<close>. Whatever factor \<open>L\<close>
  \<^verbatim>\<open>np.linalg.cholesky\<close> returns for it is the result when \<open>return_loadings\<close> is
  false, and \<open>L\<close> (a \<open>k\<close> by \<open>k\<close> array) times the \<open>k\<close> by \<open>n_rec\<close> array of normal
  draws is the result when it is true.
\<close>

theorem loadings_from_built_covariance:
  assumes "cov p = None" and "k = 2 * rank p + n_inp p + n_out p"
  shows "assembled_cov p = build_cov p k \<and>
         shape k k (build_cov p k) \<and>
         (\<forall>a<k. \<forall>b<k. build_cov p k ! a ! b =
            (if \<exists>i<rank p. (a = n_inp p + i \<and> b = n_inp p + rank p + i) \<or>
                            (a = n_inp p + rank p + i \<and> b = n_inp p + i)
             then 6 / 10 else if a = b then 1 else 0)) \<and>
         (\<forall>L. cholesky (build_cov p k) = Inr L \<longrightarrow>
            initialize_loadings cholesky randn p False = Inr L \<and>
            (shape k k L \<longrightarrow>
               initialize_loadings cholesky randn p True
                 = Inr (dot L (randn_matrix k (n_rec p) randn))))"
proof -
  have k: "rank p * 2 + n_inp p + n_out p = k"
    using assms(2) by simp
  have a: "assembled_cov p = build_cov p k"
    by (simp add: assembled_cov_def assms(1) k)
  have s: "shape k k (build_cov p k)"
    unfolding build_cov_def by (rule shape_fold_cov_step) (rule shape_eye)
  have e: "\<forall>a<k. \<forall>b<k. build_cov p k ! a ! b =
            (if \<exists>i<rank p. (a = n_inp p + i \<and> b = n_inp p + rank p + i) \<or>
                            (a = n_inp p + rank p + i \<and> b = n_inp p + i)
             then 6 / 10 else if a = b then 1 else 0)"
    unfolding build_cov_def using assms(2) by (intro allI impI fold_cov_step_nth) simp_all
  have r: "\<forall>L. cholesky (build_cov p k) = Inr L \<longrightarrow>
            initialize_loadings cholesky randn p False = Inr L \<and>
            (shape k k L \<longrightarrow>
               initialize_loadings cholesky randn p True
                 = Inr (dot L (randn_matrix k (n_rec p) randn)))"
    by (simp add: initialize_loadings_def a k matmul_randn_def shape_def)
  show ?thesis
    by (rule conjI [OF a conjI [OF s conjI [OF e r]]])
qed

lemma build_cov_lowrank: "build_cov cfg_lowrank 2 = [[1, 6 / 10], [6 / 10, 1]]"
  by (simp add: build_cov_def cov_step_def put_def eye_def cfg_lowrank_def cfg0_def eval_nat_numeral)

text \<open>
  Rank 1 without inputs and outputs: the covariance \<open>[[1, 0.6], [0.6, 1]]\<close>, its factor
  \<open>[[1, 0], [0.6, 0.8]]\<close>, and the loadings for the draws 1 and 2.
\<close>

theorem loadings_from_built_covariance_witness:
  "cov cfg_lowrank = None \<and>
   (2 :: nat) = 2 * rank cfg_lowrank + n_inp cfg_lowrank + n_out cfg_lowrank \<and>
   build_cov cfg_lowrank 2 = [[1, 6 / 10], [6 / 10, 1]] \<and>
   cholesky_coupled (build_cov cfg_lowrank 2) = Inr [[1, 0], [6 / 10, 8 / 10]] \<and>
   dot [[1, 0], [6 / 10, 8 / 10]] [[1, 6 / 10], [0, 8 / 10]] = [[1, 6 / 10], [6 / 10, 1]] \<and>
   initialize_loadings cholesky_coupled randn_example cfg_lowrank False
     = Inr [[1, 0], [6 / 10, 8 / 10]] \<and>
   initialize_loadings cholesky_coupled randn_example cfg_lowrank True = Inr [[1], [22 / 10]]"
proof -
  have h: "cov cfg_lowrank = None"
    "(2 :: nat) = 2 * rank cfg_lowrank + n_inp cfg_lowrank + n_out cfg_lowrank"
    by (simp_all add: cfg_lowrank_def cfg0_def)
  have c: "cholesky_coupled (build_cov cfg_lowrank 2) = Inr [[1, 0], [6 / 10, 8 / 10]]"
    by (simp add: build_cov_lowrank cholesky_coupled_def)
  have sh: "shape 2 2 [[1, 0], [6 / 10, 8 / 10]]"
    by (simp add: shape_def)
  have n: "n_rec cfg_lowrank = 1"
    by (simp add: cfg_lowrank_def cfg0_def)
  have d: "dot [[1, 0], [6 / 10, 8 / 10]] (randn_matrix 2 1 randn_example) = [[1], [22 / 10]]"
    "dot [[1, 0], [6 / 10, 8 / 10]] [[1, 6 / 10], [0, 8 / 10]] = [[1, 6 / 10], [6 / 10, 1]]"
    by (simp_all add: dot_def ncols_def randn_matrix_def randn_example_def eval_nat_numeral)
  from loadings_from_built_covariance [OF h, of cholesky_coupled randn_example]
  have "\<forall>L. cholesky_coupled (build_cov cfg_lowrank 2) = Inr L \<longrightarrow>
            initialize_loadings cholesky_coupled randn_example cfg_lowrank False = Inr L \<and>
            (shape 2 2 L \<longrightarrow>
               initialize_loadings cholesky_coupled randn_example cfg_lowrank True
                 = Inr (dot L (randn_matrix 2 (n_rec cfg_lowrank) randn_example)))"
    by blast
  with c sh have "initialize_loadings cholesky_coupled randn_example cfg_lowrank False
       = Inr [[1, 0], [6 / 10, 8 / 10]]"
    "initialize_loadings cholesky_coupled randn_example cfg_lowrank True
       = Inr (dot [[1, 0], [6 / 10, 8 / 10]] (randn_matrix 2 (n_rec cfg_lowrank) randn_example))"
    by blast+
  with h c d n build_cov_lowrank show ?thesis
    by simp
qed

subsection \<open>\<^verbatim>\<open>initialize_w_inp\<close>\<close>

lemma Rep_uniform01_nonneg: "0 \<le> Rep_uniform01 x"
  using Rep_uniform01 [of x] by simp

lemma np_where_lt_empty: "p \<le> 0 \<Longrightarrow> np_where_lt r c u p = []"
  using Rep_uniform01_nonneg by (auto simp: np_where_lt_def filter_empty_conv not_less intro: order_trans)

lemma set_np_where_lt:
  "set (np_where_lt r c u p) = {(i, j). i < r \<and> j < c \<and> Rep_uniform01 (u i j) < p}"
  by (auto simp: np_where_lt_def)

lemma distinct_np_where_lt: "distinct (np_where_lt r c u p)"
  by (simp add: np_where_lt_def distinct_product)

lemma assign_other:
  "shape r c w \<Longrightarrow> i < r \<Longrightarrow> j < c \<Longrightarrow> (i, j) \<notin> set ps \<Longrightarrow> assign w ps vs ! i ! j = w ! i ! j"
proof (induction w ps vs rule: assign.induct)
  case (1 w i0 j0 ps v vs)
  from "1.prems" have sh: "shape r c (put w i0 j0 v)"
    by (simp add: shape_put)
  from "1.prems" have len: "i < length w" "j < length (w ! i)"
    by (simp_all add: shape_iff)
  have "assign (put w i0 j0 v) ps vs ! i ! j = put w i0 j0 v ! i ! j"
    using sh "1.prems" by (intro "1.IH") simp_all
  also have "\<dots> = w ! i ! j"
    using "1.prems"(4) by (auto simp: put_nth [OF len])
  finally show ?case by simp
qed simp_all

lemma assign_hit:
  "shape r c w \<Longrightarrow> distinct ps \<Longrightarrow> length ps \<le> length vs \<Longrightarrow> t < length ps \<Longrightarrow>
     ps ! t = (i, j) \<Longrightarrow> i < r \<Longrightarrow> j < c \<Longrightarrow> assign w ps vs ! i ! j = vs ! t"
proof (induction w ps vs arbitrary: t rule: assign.induct)
  case (1 w i0 j0 ps v vs)
  from "1.prems" have sh: "shape r c (put w i0 j0 v)"
    by (simp add: shape_put)
  from "1.prems" have len: "i < length w" "j < length (w ! i)"
    by (simp_all add: shape_iff)
  show ?case
  proof (cases t)
    case 0
    with "1.prems" have eq: "i0 = i" "j0 = j" and notin: "(i, j) \<notin> set ps"
      by auto
    have "assign (put w i0 j0 v) ps vs ! i ! j = put w i0 j0 v ! i ! j"
      using sh "1.prems"(6,7) notin by (rule assign_other)
    also have "\<dots> = v"
      by (simp add: put_nth [OF len] eq)
    finally show ?thesis using 0 by simp
  next
    case (Suc t')
    with "1.prems" have "assign (put w i0 j0 v) ps vs ! i ! j = vs ! t'"
      by (intro "1.IH" sh) simp_all
    with Suc show ?thesis by simp
  qed
qed simp_all

lemma shape_transpose_np: "shape c r (transpose_np r c w)"
  by (simp add: shape_iff transpose_np_def)

lemma transpose_np_nth: "i < r \<Longrightarrow> j < c \<Longrightarrow> transpose_np r c w ! j ! i = w ! i ! j"
  by (simp add: transpose_np_def)

lemma zeros_nth: "i < r \<Longrightarrow> j < c \<Longrightarrow> zeros r c ! i ! j = 0"
  by (simp add: zeros_def)

text \<open>
  Claim C6, as amended. For every configuration with \<open>p_inp\<close> not zero,
  \<open>initialize_w_inp\<close> returns a matrix of shape \<open>[n_inp, n_rec]\<close>, the transpose of the
  sampled \<open>n_rec\<close> by \<open>n_inp\<close> matrix. The sampled positions \<open>idx\<close> are the positions
  whose uniform draw is below \<open>p_inp\<close>; the \<open>t\<close>-th of them holds the \<open>t\<close>-th normal draw
  times \<open>sqrt (1 / p_inp)\<close>, every other entry is zero, and the flags of Dale's law and of
  the spectral normalisation do not change the result.
\<close>

theorem input_weights:
  assumes "p_inp p \<noteq> 0" and "idx = np_where_lt (n_rec p) (n_inp p) u (p_inp p)"
  shows "\<exists>w. initialize_w_inp u randn p = Inr w \<and>
           shape (n_inp p) (n_rec p) w \<and>
           (\<forall>i<n_rec p. \<forall>j<n_inp p. (i, j) \<in> set idx \<longleftrightarrow> Rep_uniform01 (u i j) < p_inp p) \<and>
           (\<forall>t<length idx. w ! snd (idx ! t) ! fst (idx ! t) = randn t * sqrt (1 / p_inp p)) \<and>
           (\<forall>i<n_rec p. \<forall>j<n_inp p. (i, j) \<notin> set idx \<longrightarrow> w ! j ! i = 0) \<and>
           initialize_w_inp u randn
             (p\<lparr>apply_dale := a, balance_dale := b, row_balance_dale := c, spectr_norm := d,
                 spectr_rad := e\<rparr>) = Inr w"
proof -
  let ?vals = "map (\<lambda>t. randn t * sqrt (1 / p_inp p)) [0..<length idx]"
  let ?w_task = "assign (zeros (n_rec p) (n_inp p)) idx ?vals"
  let ?w = "transpose_np (n_rec p) (n_inp p) ?w_task"
  have z: "shape (n_rec p) (n_inp p) (zeros (n_rec p) (n_inp p))"
    by (rule shape_zeros)
  have r: "initialize_w_inp u randn p = Inr ?w"
    using assms by (simp add: initialize_w_inp_def Let_def)
  have r': "initialize_w_inp u randn
             (p\<lparr>apply_dale := a, balance_dale := b, row_balance_dale := c, spectr_norm := d,
                 spectr_rad := e\<rparr>) = Inr ?w"
    using assms by (simp add: initialize_w_inp_def Let_def)
  have sh: "shape (n_inp p) (n_rec p) ?w"
    by (rule shape_transpose_np)
  have mem: "\<forall>i<n_rec p. \<forall>j<n_inp p. (i, j) \<in> set idx \<longleftrightarrow> Rep_uniform01 (u i j) < p_inp p"
    by (simp add: assms(2) set_np_where_lt)
  have hit: "?w ! snd (idx ! t) ! fst (idx ! t) = randn t * sqrt (1 / p_inp p)" if t: "t < length idx" for t
  proof -
    obtain i j where ij: "idx ! t = (i, j)"
      by (cases "idx ! t")
    with t have "(i, j) \<in> set idx"
      by (metis nth_mem)
    then have b: "i < n_rec p" "j < n_inp p"
      by (simp_all add: assms(2) set_np_where_lt)
    have "?w_task ! i ! j = ?vals ! t"
      using z _ _ t ij b by (rule assign_hit) (simp_all add: assms(2) distinct_np_where_lt)
    with t b show ?thesis
      by (simp add: ij transpose_np_nth)
  qed
  have miss: "?w ! j ! i = 0" if "i < n_rec p" "j < n_inp p" "(i, j) \<notin> set idx" for i j
    using that by (simp add: transpose_np_nth assign_other [OF z] zeros_nth)
  from r r' sh mem hit miss show ?thesis
    by blast
qed

text \<open>
  The claim C6 as stated fails: with \<open>p_inp = 0\<close> the division \<^verbatim>\<open>1 / params["p_inp"]\<close>
  of line 99 raises and no matrix is returned.
\<close>

theorem zero_p_inp_counterexample:
  "initialize_w_inp u_zero draws (cfg0\<lparr>p_inp := 0\<rparr>) = Inl ZeroDivisionError"
  by (simp add: initialize_w_inp_def)

lemma run_cfg_inp: "initialize_w_inp u_mixed draws cfg_inp = Inr [[- 2, 0]]"
  by (simp add: initialize_w_inp_def cfg_inp_def cfg0_def np_where_lt_def u_mixed_def
      Abs_uniform01_inverse zeros_def put_def transpose_np_def draws_def eval_nat_numeral)

lemma idx_cfg_inp: "np_where_lt (n_rec cfg_inp) (n_inp cfg_inp) u_mixed (p_inp cfg_inp) = [(0, 0)]"
  by (simp add: cfg_inp_def cfg0_def np_where_lt_def u_mixed_def Abs_uniform01_inverse
      eval_nat_numeral)

text \<open>
  Two neurons and one input with \<open>p_inp = 1 / 4\<close>: the first position is sampled and holds
  the draw \<open>-1\<close> times 2, the second is not.
\<close>

theorem input_weights_witness:
  "p_inp cfg_inp \<noteq> 0 \<and>
   np_where_lt (n_rec cfg_inp) (n_inp cfg_inp) u_mixed (p_inp cfg_inp) = [(0, 0)] \<and>
   initialize_w_inp u_mixed draws cfg_inp = Inr [[- 2, 0]] \<and>
   shape (n_inp cfg_inp) (n_rec cfg_inp) [[- 2, 0]] \<and>
   [[- 2, 0]] ! 0 ! 0 = draws 0 * sqrt (1 / p_inp cfg_inp) \<and>
   initialize_w_inp u_mixed draws (cfg_inp\<lparr>apply_dale := True, balance_dale := True,
       row_balance_dale := True, spectr_norm := True, spectr_rad := 5\<rparr>) = Inr [[- 2, 0]]"
proof -
  have h: "p_inp cfg_inp \<noteq> 0"
    by (simp add: cfg_inp_def)
  from input_weights [where p = cfg_inp and u = u_mixed and randn = draws and a = True
      and b = True and c = True and d = True and e = 5, OF h refl]
  obtain w where w: "initialize_w_inp u_mixed draws cfg_inp = Inr w"
    "shape (n_inp cfg_inp) (n_rec cfg_inp) w"
    "\<forall>t<length (np_where_lt (n_rec cfg_inp) (n_inp cfg_inp) u_mixed (p_inp cfg_inp)).
        w ! snd (np_where_lt (n_rec cfg_inp) (n_inp cfg_inp) u_mixed (p_inp cfg_inp) ! t)
          ! fst (np_where_lt (n_rec cfg_inp) (n_inp cfg_inp) u_mixed (p_inp cfg_inp) ! t)
        = draws t * sqrt (1 / p_inp cfg_inp)"
    "initialize_w_inp u_mixed draws (cfg_inp\<lparr>apply_dale := True, balance_dale := True,
       row_balance_dale := True, spectr_norm := True, spectr_rad := 5\<rparr>) = Inr w"
    by blast
  from w(1) have eq: "w = [[- 2, 0]]"
    by (simp add: run_cfg_inp)
  from w(3) have "w ! 0 ! 0 = draws 0 * sqrt (1 / p_inp cfg_inp)"
    unfolding idx_cfg_inp by simp
  with h w(2,4) idx_cfg_inp run_cfg_inp show ?thesis
    unfolding eq by simp
qed

subsection \<open>Eigenvalues and the spectral radius\<close>

lemma sum_list_upt_sum: "sum_list (map f [0..<n]) = (\<Sum>k<n. f k :: real)"
  by (simp add: interv_sum_list_conv_sum_set_nat atLeast0LessThan)

lemma ncols_shape: "shape n n b \<Longrightarrow> ncols b = n"
  by (cases b) (auto simp: shape_def ncols_def)

lemma dot_nth:
  "shape n n a \<Longrightarrow> shape n n b \<Longrightarrow> i < n \<Longrightarrow> j < n \<Longrightarrow>
     dot a b ! i ! j = (\<Sum>k<n. a ! i ! k * b ! k ! j)"
proof -
  assume a: "shape n n a" and b: "shape n n b" and ij: "i < n" "j < n"
  from b have nc: "ncols b = n" by (rule ncols_shape)
  from a b have len: "length a = n" "length b = n"
    by (simp_all add: shape_iff)
  show ?thesis
    using ij by (simp add: dot_def nc len sum_list_upt_sum)
qed

lemma shape_dot: "shape n n a \<Longrightarrow> shape n n b \<Longrightarrow> shape n n (dot a b)"
proof -
  assume a: "shape n n a" and b: "shape n n b"
  from b have nc: "ncols b = n" by (rule ncols_shape)
  from a show ?thesis
    by (simp add: shape_iff dot_def nc)
qed

lemma dot_scaled:
  assumes "shape n n a" "shape n n b" "shape n n b'"
    and "\<forall>k<n. \<forall>j<n. b' ! k ! j = c * b ! k ! j"
    and "i < n" "j < n"
  shows "dot a b' ! i ! j = c * dot a b ! i ! j"
proof -
  have "(\<Sum>k<n. a ! i ! k * b' ! k ! j) = (\<Sum>k<n. c * (a ! i ! k * b ! k ! j))"
    using assms(4,6) by (intro sum.cong) simp_all
  then show ?thesis
    by (simp add: dot_nth [OF assms(1,3,5,6)] dot_nth [OF assms(1,2,5,6)] sum_distrib_left)
qed

lemma eigenvalue_scaled:
  assumes "eigenvalue n A l" and "\<forall>i<n. \<forall>j<n. B ! i ! j = c * A ! i ! j"
  shows "eigenvalue n B (complex_of_real c * l)"
proof -
  from assms(1) obtain v :: "nat \<Rightarrow> complex" where
    nz: "\<exists>i<n. v i \<noteq> 0"
    and ev: "\<forall>i<n. (\<Sum>j<n. complex_of_real (A ! i ! j) * v j) = l * v i"
    unfolding eigenvalue_def by blast
  have "(\<Sum>j<n. complex_of_real (B ! i ! j) * v j) = complex_of_real c * l * v i" if "i < n" for i
  proof -
    have "(\<Sum>j<n. complex_of_real (B ! i ! j) * v j)
            = (\<Sum>j<n. complex_of_real c * (complex_of_real (A ! i ! j) * v j))"
      using assms(2) that by (intro sum.cong) simp_all
    also have "\<dots> = complex_of_real c * (\<Sum>j<n. complex_of_real (A ! i ! j) * v j)"
      by (simp add: sum_distrib_left)
    also have "\<dots> = complex_of_real c * l * v i"
      using ev that by simp
    finally show ?thesis .
  qed
  with nz show ?thesis
    unfolding eigenvalue_def by blast
qed

lemma eigenvalue_of_zero:
  assumes "eigenvalue n B l" and "\<forall>i<n. \<forall>j<n. B ! i ! j = 0"
  shows "l = 0"
proof -
  from assms(1) obtain v :: "nat \<Rightarrow> complex" and i where
    i: "i < n" "v i \<noteq> 0"
    and ev: "\<forall>i<n. (\<Sum>j<n. complex_of_real (B ! i ! j) * v j) = l * v i"
    unfolding eigenvalue_def by blast
  have "(\<Sum>j<n. complex_of_real (B ! i ! j) * v j) = 0"
    using assms(2) i(1) by (intro sum.neutral) simp
  with ev i show ?thesis by simp
qed

lemma is_spectral_radius_scaled:
  assumes "is_spectral_radius n A r" and "\<forall>i<n. \<forall>j<n. B ! i ! j = c * A ! i ! j"
  shows "is_spectral_radius n B (\<bar>c\<bar> * r)"
proof -
  from assms(1) obtain l where l: "eigenvalue n A l" "cmod l = r"
    and le: "\<forall>l. eigenvalue n A l \<longrightarrow> cmod l \<le> r"
    unfolding is_spectral_radius_def by blast
  have "eigenvalue n B (complex_of_real c * l)"
    using l(1) assms(2) by (rule eigenvalue_scaled)
  moreover have "cmod (complex_of_real c * l) = \<bar>c\<bar> * r"
    by (simp add: norm_mult l(2))
  moreover have "cmod l' \<le> \<bar>c\<bar> * r" if l': "eigenvalue n B l'" for l'
  proof (cases "c = 0")
    case True
    with assms(2) have "\<forall>i<n. \<forall>j<n. B ! i ! j = 0" by simp
    with l' have "l' = 0" by (rule eigenvalue_of_zero)
    with True show ?thesis by simp
  next
    case False
    have "\<forall>i<n. \<forall>j<n. A ! i ! j = (1 / c) * B ! i ! j"
      using assms(2) False by simp
    with l' have "eigenvalue n A (complex_of_real (1 / c) * l')"
      by (rule eigenvalue_scaled)
    with le have "cmod (complex_of_real (1 / c) * l') \<le> r" by blast
    then have "cmod l' / \<bar>c\<bar> \<le> r"
      by (simp add: norm_mult norm_divide)
    with False show ?thesis
      by (simp add: pos_divide_le_eq mult.commute)
  qed
  ultimately show ?thesis
    unfolding is_spectral_radius_def by blast
qed

lemma max_abs_eig_spectral_radius:
  assumes "eigvals_correct n eigvals" "shape n n (dot m a)"
    and "max_abs_eig eigvals m (Some a) = Inr mx"
  shows "is_spectral_radius n (dot m a) mx"
proof -
  let ?ls = "eigvals (dot m a)"
  from assms(1,2) have lib: "\<forall>l. l \<in> set ?ls \<longleftrightarrow> eigenvalue n (dot m a) l"
    unfolding eigvals_correct_def by blast
  from assms(3) obtain x xs where xs: "map cmod ?ls = x # xs" "mx = fold max xs x"
    by (auto simp: max_abs_eig_def split: list.splits)
  have mx: "mx = Max (cmod ` set ?ls)"
    using xs by (metis Max.set_eq_fold list.set_map)
  have ne: "cmod ` set ?ls \<noteq> {}"
    using xs(1) by (metis list.set_map list.simps(3) set_empty2)
  from Max_in [OF _ ne] have "mx \<in> cmod ` set ?ls"
    by (simp add: mx)
  then obtain l where "l \<in> set ?ls" "cmod l = mx" by auto
  with lib have ex: "\<exists>l. eigenvalue n (dot m a) l \<and> cmod l = mx" by blast
  have "cmod l \<le> mx" if "eigenvalue n (dot m a) l" for l
  proof -
    from that lib have "cmod l \<in> cmod ` set ?ls" by blast
    then show ?thesis
      unfolding mx by (intro Max_ge) simp_all
  qed
  with ex show ?thesis
    unfolding is_spectral_radius_def by blast
qed

subsection \<open>The spectral normalisation\<close>

lemma length_balance_row: "balance_row s row = Some row' \<Longrightarrow> length row' = length row"
proof -
  assume "balance_row s row = Some row'"
  then obtain xs where
    xs: "map (\<lambda>x. to_real (div_by x (np_div (ex_u s row) (in_u s row)))) (take s row) = map Some xs"
    and row': "row' = xs @ drop s row"
    by (auto simp: balance_row_def Let_def those_eq_Some)
  from xs have "length xs = length (take s row)"
    by (metis length_map)
  then show ?thesis
    by (simp add: row')
qed

lemma shape_row_balance: "shape r c w \<Longrightarrow> row_balance s w = Some w' \<Longrightarrow> shape r c w'"
proof -
  assume w: "shape r c w" and rb: "row_balance s w = Some w'"
  from rb have m: "map (balance_row s) w = map Some w'"
    by (simp add: row_balance_def those_eq_Some)
  then have len: "length w' = length w"
    by (metis length_map)
  have "length (w' ! i) = c" if "i < r" for i
  proof -
    from that w len have i: "i < length w" "i < length w'"
      by (simp_all add: shape_iff)
    with m have "balance_row s (w ! i) = Some (w' ! i)"
      by (metis nth_map)
    then have "length (w' ! i) = length (w ! i)"
      by (rule length_balance_row)
    with w that show ?thesis by (simp add: shape_iff)
  qed
  with w len show ?thesis by (simp add: shape_iff)
qed

lemma shape_scale_np: "shape r c w \<Longrightarrow> scale_np x w = Some w' \<Longrightarrow> shape r c w'"
  by (cases x) (auto simp: shape_scale split: if_splits)

lemma shape_dale:
  assumes "dale p w0 dm = Inr (Some a, m)" "shape r c w0"
  shows "shape r c a"
proof (cases "balance_dale p")
  case False
  with assms show ?thesis
    by (auto simp: dale_def Let_def shape_map_map)
next
  case True
  let ?s = "py_cut (- inh_count p) (n_rec p)"
  let ?w2 = "scale_cols ?s ((1 - p_inh p) / p_inh p) (map (map abs) w0)"
  have w2: "shape r c ?w2"
    using assms(2) by (simp add: shape_scale_cols shape_map_map)
  from assms(1) True obtain w3 x where
    w3: "(if row_balance_dale p then row_balance ?s ?w2 else Some ?w2) = Some w3"
    and a: "scale_np x w3 = Some a"
    by (auto simp: dale_def Let_def split: if_splits Option.bind_splits)
  from w3 w2 have "shape r c w3"
    by (auto split: if_splits dest: shape_row_balance)
  then show ?thesis using a by (rule shape_scale_np)
qed

lemma concat_nonempty: "shape n n a \<Longrightarrow> 0 < n \<Longrightarrow> concat a \<noteq> []"
  by (cases a) (auto simp: shape_def)

lemma spectral_normalise_radius:
  assumes lib: "eigvals_correct n eigvals"
    and shm: "shape n n m" and sha: "shape n n a"
    and sp: "spectral_normalise eigvals rad m (Some a) = Inr (Some w)"
  shows "is_spectral_radius n (dot m w) \<bar>rad\<bar> \<and>
         (\<exists>mx. is_spectral_radius n (dot m a) mx \<and> 0 < mx \<and>
               w = map (map (\<lambda>x. rad * x / mx)) a)"
proof -
  from sp obtain mx where mx: "max_abs_eig eigvals m (Some a) = Inr mx"
    and w: "div_mat (map (map (\<lambda>x. rad * x)) a) mx = Some w"
    by (auto simp: spectral_normalise_def split: sum.splits)
  have sr: "is_spectral_radius n (dot m a) mx"
    using lib shape_dot [OF shm sha] mx by (rule max_abs_eig_spectral_radius)
  then have n: "0 < n"
    unfolding is_spectral_radius_def eigenvalue_def by auto
  have ne: "concat (map (map (\<lambda>x. rad * x)) a) \<noteq> []"
    using sha n by (intro concat_nonempty [of n]) (simp_all add: shape_map_map)
  with w have nz: "mx \<noteq> 0" and w_eq: "w = map (map (\<lambda>x. x / mx)) (map (map (\<lambda>x. rad * x)) a)"
    by (auto simp: div_mat_def split: if_splits)
  have pos: "0 < mx"
    using max_abs_eig_nonneg [OF mx] nz by simp
  have w_eq': "w = map (map (\<lambda>x. rad * x / mx)) a"
    by (simp add: w_eq comp_def)
  have shw: "shape n n w"
    unfolding w_eq using sha by (intro shape_map_map)
  have ent: "\<forall>k<n. \<forall>j<n. w ! k ! j = (rad / mx) * a ! k ! j"
    using sha by (simp add: w_eq shape_iff)
  have "\<forall>i<n. \<forall>j<n. dot m w ! i ! j = (rad / mx) * dot m a ! i ! j"
    using dot_scaled [OF shm sha shw ent] by blast
  with sr have "is_spectral_radius n (dot m w) (\<bar>rad / mx\<bar> * mx)"
    by (rule is_spectral_radius_scaled)
  moreover have "\<bar>rad / mx\<bar> * mx = \<bar>rad\<bar>"
    using pos by simp
  ultimately have "is_spectral_radius n (dot m w) \<bar>rad\<bar>" by simp
  with sr pos w_eq' show ?thesis by blast
qed

lemma fill_w_rec_spectr_norm:
  "fill_w_rec u normal gam p = (p', out, r) \<Longrightarrow> spectr_norm p \<Longrightarrow> spectr_norm p'"
  by (auto dest: fill_w_rec_cases)

text \<open>
  Claim C3, as amended. \<^verbatim>\<open>np.linalg.eigvals\<close> is an argument of the routine's model,
  and it returns the eigenvalues of the array it is given (\<open>eigvals_correct\<close>). For a
  configuration with \<open>spectr_norm\<close> true, in the configuration given or after the Gamma
  branch has forced it (the configuration left behind), every run that returns gives
  weights and a mask for which the spectral radius of \<^verbatim>\<open>dale_mask.dot(w_rec)\<close> is the
  absolute value of \<open>spectr_rad\<close>: the weights are those before line 76, whose product
  with the mask has a spectral radius \<open>mx\<close> that is not zero, every entry multiplied by
  \<open>spectr_rad\<close> and divided by \<open>mx\<close>, and the eigenvalues scale with the matrix.
\<close>

theorem spectral_radius_after_normalisation:
  assumes lib: "eigvals_correct (n_rec p) eigvals"
    and ret: "initialize_w_rec eigvals u normal gam p = (p', out, Inr (w, m))"
    and norm: "spectr_norm p \<or> spectr_norm p'"
  shows "is_spectral_radius (n_rec p) (dot m w) \<bar>spectr_rad p\<bar> \<and>
         (\<exists>a mx. shape (n_rec p) (n_rec p) a \<and>
                 is_spectral_radius (n_rec p) (dot m a) mx \<and> 0 < mx \<and>
                 w = map (map (\<lambda>x. spectr_rad p * x / mx)) a)"
proof -
  let ?n = "n_rec p"
  from ret obtain out0 w0 w1 mx where
    f: "fill_w_rec u normal gam p = (p', out0, Inr w0)"
    and d: "(if apply_dale p then dale p w0 (eye ?n) else Inr (Some w0, eye ?n)) = Inr (w1, m)"
    and sp: "(if spectr_norm p' then spectral_normalise eigvals (spectr_rad p) m w1 else Inr w1)
               = Inr (Some w)"
    by (rule initialize_w_rec_InrD)
  from norm f have norm': "spectr_norm p'"
    by (auto dest: fill_w_rec_spectr_norm)
  have sh0: "shape ?n ?n w0"
    using f by (rule fill_w_rec_shape)
  have shm: "shape ?n ?n m"
    using d by (auto simp: shape_eye shape_negate_rows dest!: dale_mask split: if_splits)
  from sp norm' have sn: "spectral_normalise eigvals (spectr_rad p) m w1 = Inr (Some w)"
    by simp
  then obtain a where a: "w1 = Some a"
    by (cases w1) (auto simp: spectral_normalise_def max_abs_eig_def)
  have sha: "shape ?n ?n a"
    using d a sh0 by (auto dest: shape_dale split: if_splits)
  from spectral_normalise_radius [OF lib shm sha sn [unfolded a]] sha show ?thesis
    by blast
qed

text \<open>
  One neuron, the weight \<open>-2\<close> before the normalisation and the target radius 2.
\<close>

lemma eigvals_triangular_1x1: "eigvals_correct 1 eigvals_triangular"
proof -
  have "(l \<in> set (eigvals_triangular a)) = eigenvalue 1 a l" if "shape 1 1 a" for a l
  proof -
    from that have e: "eigvals_triangular a = [complex_of_real (a ! 0 ! 0)]"
      by (simp add: eigvals_triangular_def shape_def)
    have "eigenvalue 1 a l \<longleftrightarrow> (\<exists>v :: nat \<Rightarrow> complex. v 0 \<noteq> 0 \<and> complex_of_real (a ! 0 ! 0) * v 0 = l * v 0)"
      by (simp add: eigenvalue_def)
    also have "\<dots> \<longleftrightarrow> l = complex_of_real (a ! 0 ! 0)"
      by (auto intro: exI [of _ "\<lambda>_. 1"])
    finally show ?thesis
      by (simp add: e)
  qed
  then show ?thesis
    unfolding eigvals_correct_def by blast
qed

lemma run_cfg_norm:
  "initialize_w_rec eigvals_triangular u_zero draws draws cfg_norm
     = (cfg_norm, [SpectralRad 2], Inr ([[- 2]], [[1]]))"
  by (simp add: run_defs cfg_norm_def cfg0_def eigvals_triangular_def draws_def)

lemma run_cfg_norm_negative:
  "initialize_w_rec eigvals_triangular u_zero draws draws (cfg_norm\<lparr>spectr_rad := - 2\<rparr>)
     = (cfg_norm\<lparr>spectr_rad := - 2\<rparr>, [SpectralRad 2], Inr ([[- 2]], [[1]]))"
  by (simp add: run_defs cfg_norm_def cfg0_def eigvals_triangular_def draws_def)

theorem spectral_radius_after_normalisation_witness:
  "eigvals_correct (n_rec cfg_norm) eigvals_triangular \<and>
   initialize_w_rec eigvals_triangular u_zero draws draws cfg_norm
     = (cfg_norm, [SpectralRad 2], Inr ([[- 2]], [[1]])) \<and>
   spectr_norm cfg_norm \<and> \<bar>spectr_rad cfg_norm\<bar> = 2 \<and>
   is_spectral_radius 1 (dot [[1]] [[- 2]]) 2"
proof -
  have n: "n_rec cfg_norm = 1" and s: "spectr_norm cfg_norm" and r: "\<bar>spectr_rad cfg_norm\<bar> = 2"
    by (simp_all add: cfg_norm_def cfg0_def)
  have lib: "eigvals_correct (n_rec cfg_norm) eigvals_triangular"
    unfolding n by (rule eigvals_triangular_1x1)
  from spectral_radius_after_normalisation [OF lib run_cfg_norm disjI1 [OF s]]
  have "is_spectral_radius 1 (dot [[1]] [[- 2]]) 2"
    unfolding n r by (rule conjunct1)
  with lib run_cfg_norm s r show ?thesis by simp
qed

text \<open>
  The claim C3 as stated fails for a negative \<open>spectr_rad\<close>: with the target \<open>-2\<close> the
  run returns the weight \<open>-2\<close>, the spectral radius of the product with the mask is 2,
  and no spectral radius is negative.
\<close>

theorem negative_spectr_rad_counterexample:
  "spectr_norm (cfg_norm\<lparr>spectr_rad := - 2\<rparr>) \<and>
   eigvals_correct (n_rec (cfg_norm\<lparr>spectr_rad := - 2\<rparr>)) eigvals_triangular \<and>
   initialize_w_rec eigvals_triangular u_zero draws draws (cfg_norm\<lparr>spectr_rad := - 2\<rparr>)
     = (cfg_norm\<lparr>spectr_rad := - 2\<rparr>, [SpectralRad 2], Inr ([[- 2]], [[1]])) \<and>
   \<not> is_spectral_radius 1 (dot [[1]] [[- 2]]) (spectr_rad (cfg_norm\<lparr>spectr_rad := - 2\<rparr>))"
proof -
  have n: "n_rec (cfg_norm\<lparr>spectr_rad := - 2\<rparr>) = 1"
    and s: "spectr_norm (cfg_norm\<lparr>spectr_rad := - 2\<rparr>)"
    by (simp_all add: cfg_norm_def cfg0_def)
  have lib: "eigvals_correct (n_rec (cfg_norm\<lparr>spectr_rad := - 2\<rparr>)) eigvals_triangular"
    unfolding n by (rule eigvals_triangular_1x1)
  have "\<not> is_spectral_radius 1 (dot [[1]] [[- 2]]) (- 2)"
  proof
    assume "is_spectral_radius 1 (dot [[1]] [[- 2]]) (- 2)"
    then obtain l :: complex where "cmod l = - 2"
      unfolding is_spectral_radius_def by blast
    moreover have "0 \<le> cmod l" by simp
    ultimately show False by simp
  qed
  with s lib run_cfg_norm_negative show ?thesis by simp
qed

end
